theory Spec2Isabelle
  imports Main "HOL-Library.Word" "HOL-Library.Sublist"
begin

chapter \<open>The program\<close>

section \<open>JavaScript strings\<close>

text \<open>
  A JavaScript string is a sequence of UTF-16 code units; \<open>length\<close>, \<open>slice\<close>, \<open>split\<close>,
  \<open>trim\<close> and regular expressions without the \<open>u\<close> flag all count and compare code
  units. String literals of the source are written out as their code units.
\<close>

type_synonym js_string = "16 word list"

text \<open>The empty string is the only falsy string (\<open>!s\<close>, \<open>s || d\<close>, \<open>s ? a : b\<close>).\<close>

definition truthy :: "js_string \<Rightarrow> bool" where
  "truthy s = (s \<noteq> [])"

text \<open>\<open>a || d\<close> on a value that may be \<open>undefined\<close>: the default replaces
  \<open>undefined\<close> and the empty string.\<close>

definition or_default :: "js_string option \<Rightarrow> js_string \<Rightarrow> js_string" where
  "or_default v d = (case v of None \<Rightarrow> d | Some s \<Rightarrow> if truthy s then s else d)"

text \<open>\<open>s.slice(-n)\<close>: the last \<open>n\<close> code units, the whole string when it is shorter
  (the start index is \<open>max (length s - n) 0\<close>).\<close>

definition slice_last :: "nat \<Rightarrow> js_string \<Rightarrow> js_string" where
  "slice_last n s = drop (length s - n) s"

text \<open>\<open>s.slice(0, n)\<close>: the first \<open>n\<close> code units, the whole string when it is shorter.\<close>

definition slice_first :: "nat \<Rightarrow> js_string \<Rightarrow> js_string" where
  "slice_first n s = take n s"

text \<open>\<open>s.split(c)\<close> for a one-character separator: never empty, \<open>''.split(c)\<close> is
  \<open>['']\<close>.\<close>

fun split_on :: "16 word \<Rightarrow> js_string \<Rightarrow> js_string list" where
  "split_on c [] = [[]]"
| "split_on c (x # xs) =
     (if x = c then [] # split_on c xs
      else (case split_on c xs of [] \<Rightarrow> [[x]] | p # ps \<Rightarrow> (x # p) # ps))"

text \<open>\<open>xs[i]\<close> on an array: \<open>undefined\<close> out of range.\<close>

definition index_opt :: "'a list \<Rightarrow> nat \<Rightarrow> 'a option" where
  "index_opt xs i = (if i < length xs then Some (xs ! i) else None)"

text \<open>A template literal turns a number into its decimal digits; chapter numbers are
  natural numbers.\<close>

definition digit :: "nat \<Rightarrow> 16 word" where
  "digit d = 0x30 + of_nat d"

fun decimal :: "nat \<Rightarrow> js_string" where
  "decimal n = (if n < 10 then [digit n] else decimal (n div 10) @ [digit (n mod 10)])"

declare decimal.simps [simp del]

text \<open>\<open>String.prototype.trim\<close> removes WhiteSpace and LineTerminator code units from
  both ends.\<close>

definition is_js_space :: "16 word \<Rightarrow> bool" where
  "is_js_space c =
     (c = 0x0009 \<or> c = 0x000A \<or> c = 0x000B \<or> c = 0x000C \<or> c = 0x000D \<or> c = 0x0020 \<or>
      c = 0x00A0 \<or> c = 0x1680 \<or> (0x2000 \<le> c \<and> c \<le> 0x200A) \<or> c = 0x2028 \<or>
      c = 0x2029 \<or> c = 0x202F \<or> c = 0x205F \<or> c = 0x3000 \<or> c = 0xFEFF)"

definition js_trim :: "js_string \<Rightarrow> js_string" where
  "js_trim s = rev (dropWhile is_js_space (rev (dropWhile is_js_space s)))"

text \<open>Whether a literal occurs somewhere in a string (\<open>s.includes(lit)\<close>).\<close>

fun occurs :: "js_string \<Rightarrow> js_string \<Rightarrow> bool" where
  "occurs lit [] = (lit = [])"
| "occurs lit (c # cs) = (prefix lit (c # cs) \<or> occurs lit cs)"

text \<open>\<open>first_occurrence lit pre\<close>: in a string that starts with \<open>pre\<close> followed by \<open>lit\<close>,
  this is the first occurrence of \<open>lit\<close>; no occurrence starts inside \<open>pre\<close>.\<close>

definition first_occurrence :: "js_string \<Rightarrow> js_string \<Rightarrow> bool" where
  "first_occurrence lit pre = (\<not> occurs lit (pre @ butlast lit))"

section \<open>The generation service\<close>

subsection \<open>Responses of the remote model\<close>

text \<open>An awaited call either resolves with a value or rejects (throws at the
  \<open>await\<close>).\<close>

datatype 'a outcome = Resolved 'a | Rejected

text \<open>\<open>response.text\<close> is a string or \<open>undefined\<close>.\<close>

type_synonym response_text = "js_string option"

subsection \<open>Regular expressions of \<open>analyzeAndPlan\<close>\<close>

text \<open>
  The three patterns are a literal, a capture group \<open>[\s\S]*?\<close> or \<open>[\s\S]*\<close> (any code
  unit, line terminators included), and for the first two a closing literal. The \<open>i\<close> flag
  changes nothing: no code unit of the three literals has a case variant, and no other code
  unit is mapped to one of them by upper-casing. The matcher tries the start positions from
  left to right and, at a start position, the lazy group from the shortest capture upwards.
\<close>

fun lazy_until :: "js_string \<Rightarrow> js_string \<Rightarrow> js_string option" where
  "lazy_until lit [] = (if lit = [] then Some [] else None)"
| "lazy_until lit (c # cs) =
     (if prefix lit (c # cs) then Some []
      else map_option ((#) c) (lazy_until lit cs))"

definition match_here :: "js_string \<Rightarrow> js_string \<Rightarrow> js_string \<Rightarrow> js_string option" where
  "match_here lit1 lit2 s =
     (if prefix lit1 s then lazy_until lit2 (drop (length lit1) s) else None)"

text \<open>Capture group 1 of \<open>s.match(/lit1([\s\S]*?)lit2/)\<close>, \<open>None\<close> when there is no match.\<close>

fun regex_between :: "js_string \<Rightarrow> js_string \<Rightarrow> js_string \<Rightarrow> js_string option" where
  "regex_between lit1 lit2 [] = match_here lit1 lit2 []"
| "regex_between lit1 lit2 (c # cs) =
     (case match_here lit1 lit2 (c # cs) of
        Some cap \<Rightarrow> Some cap
      | None \<Rightarrow> regex_between lit1 lit2 cs)"

text \<open>Capture group 1 of \<open>s.match(/lit([\s\S]*)/)\<close>: the greedy group takes the rest.\<close>

fun regex_after :: "js_string \<Rightarrow> js_string \<Rightarrow> js_string option" where
  "regex_after lit [] = (if lit = [] then Some [] else None)"
| "regex_after lit (c # cs) =
     (if prefix lit (c # cs) then Some (drop (length lit) (c # cs))
      else regex_after lit cs)"

text \<open>The markers (U+5206 U+6790 U+FF1A, U+5927 U+7EB2 U+FF1A, U+6545 U+4E8B U+FF1A: the
  words for analysis, outline and story, each followed by a full-width colon) and the
  placeholders of the source.\<close>

definition MARK_ANALYSIS :: js_string where
  "MARK_ANALYSIS =
    [0x5206, 0x6790, 0xFF1A]"

definition MARK_BLUEPRINT :: js_string where
  "MARK_BLUEPRINT =
    [0x5927, 0x7EB2, 0xFF1A]"

definition MARK_STORY :: js_string where
  "MARK_STORY =
    [0x6545, 0x4E8B, 0xFF1A]"

definition ANALYSIS_PLACEHOLDER :: js_string where
  "ANALYSIS_PLACEHOLDER =
    [0x5206, 0x6790, 0x5B8C, 0x6210, 0x3002]"

definition BLUEPRINT_PLACEHOLDER :: js_string where
  "BLUEPRINT_PLACEHOLDER =
    [0x84DD, 0x56FE, 0x5DF2, 0x6784, 0x601D, 0x3002]"

record plan =
  plan_analysis :: js_string
  plan_blueprint :: js_string
  plan_firstChapter :: js_string

text \<open>What \<open>analyzeAndPlan\<close> returns for the response text of the model
  (\<open>response.text || ''\<close>).\<close>

definition analyzeAndPlan_parse :: "response_text \<Rightarrow> plan" where
  "analyzeAndPlan_parse rt =
     (let text = or_default rt [] in
      \<lparr> plan_analysis =
          (case regex_between MARK_ANALYSIS MARK_BLUEPRINT text of
             Some cap \<Rightarrow> js_trim cap | None \<Rightarrow> ANALYSIS_PLACEHOLDER),
        plan_blueprint =
          (case regex_between MARK_BLUEPRINT MARK_STORY text of
             Some cap \<Rightarrow> js_trim cap | None \<Rightarrow> BLUEPRINT_PLACEHOLDER),
        plan_firstChapter =
          (case regex_after MARK_STORY text of
             Some cap \<Rightarrow> js_trim cap | None \<Rightarrow> text) \<rparr>)"

subsection \<open>The request of \<open>writeNextChapter\<close>\<close>

text \<open>The prompt is a template literal with five holes: the guidance, the blueprint, the
  tail of the story, and the chapter number twice. The six fixed pieces, as in the
  source:\<close>

definition prompt_part0 :: js_string where
  "prompt_part0 =
    [0x000A, 0x0020, 0x0020, 0x0020, 0x0020, 0x4F60, 0x6B63, 0x5728, 0x521B, 0x4F5C, 0x4E00,
     0x90E8, 0x957F, 0x7BC7, 0x5DE8, 0x8457, 0x3002, 0x000A, 0x0020, 0x0020, 0x0020, 0x0020,
     0x000A, 0x0020, 0x0020, 0x0020, 0x0020, 0x3010, 0x6838, 0x5FC3, 0x8981, 0x6C42, 0x3011,
     0x000A, 0x0020, 0x0020, 0x0020, 0x0020, 0x4F60, 0x5FC5, 0x987B, 0x4E25, 0x683C, 0x6839,
     0x636E, 0x201C, 0x521B, 0x4F5C, 0x52A9, 0x624B, 0x201D, 0x7ED9, 0x51FA, 0x7684, 0x4EE5,
     0x4E0B, 0x63D0, 0x793A, 0x548C, 0x6307, 0x5BFC, 0x6765, 0x64B0, 0x5199, 0x672C, 0x7AE0,
     0x8282, 0xFF1A, 0x000A, 0x0020, 0x0020, 0x0020, 0x0020, 0x0022]"

definition prompt_part1 :: js_string where
  "prompt_part1 =
    [0x0022, 0x000A, 0x0020, 0x0020, 0x0020, 0x0020, 0x000A, 0x0020, 0x0020, 0x0020, 0x0020,
     0x3010, 0x5168, 0x4E66, 0x5927, 0x7EB2, 0x3011, 0x000A, 0x0020, 0x0020, 0x0020, 0x0020,
     0x0022]"

definition prompt_part2 :: js_string where
  "prompt_part2 =
    [0x0022, 0x000A, 0x0020, 0x0020, 0x0020, 0x0020, 0x000A, 0x0020, 0x0020, 0x0020, 0x0020,
     0x3010, 0x524D, 0x6587, 0x56DE, 0x987E, 0x3011, 0x000A, 0x0020, 0x0020, 0x0020, 0x0020,
     0x0022]"

definition prompt_part3 :: js_string where
  "prompt_part3 =
    [0x0022, 0x000A, 0x0020, 0x0020, 0x0020, 0x0020, 0x000A, 0x0020, 0x0020, 0x0020, 0x0020,
     0x3010, 0x4EFB, 0x52A1, 0x3011, 0x000A, 0x0020, 0x0020, 0x0020, 0x0020, 0x8BF7, 0x64B0,
     0x5199, 0x7B2C, 0x0020]"

definition prompt_part4 :: js_string where
  "prompt_part4 =
    [0x0020, 0x7AE0, 0x3002, 0x000A, 0x0020, 0x0020, 0x0020, 0x0020, 0x0031, 0x002E, 0x0020,
     0x6DF1, 0x5EA6, 0x7ED3, 0x5408, 0x4E0A, 0x8FF0, 0x201C, 0x521B, 0x4F5C, 0x52A9, 0x624B,
     0x201D, 0x7684, 0x63D0, 0x793A, 0x8BCD, 0xFF0C, 0x5C06, 0x5176, 0x8F6C, 0x5316, 0x4E3A,
     0x5177, 0x4F53, 0x7684, 0x6545, 0x4E8B, 0x60C5, 0x8282, 0x3001, 0x4EBA, 0x7269, 0x5BF9,
     0x8BDD, 0x6216, 0x5FC3, 0x7406, 0x63CF, 0x5199, 0x3002, 0x000A, 0x0020, 0x0020, 0x0020,
     0x0020, 0x0032, 0x002E, 0x0020, 0x5B57, 0x6570, 0x5728, 0x0020, 0x0031, 0x0032, 0x0030,
     0x0030, 0x0020, 0x5B57, 0x4EE5, 0x4E0A, 0xFF0C, 0x5C55, 0x73B0, 0x6587, 0x5B66, 0x5927,
     0x5E08, 0x7EA7, 0x7684, 0x6587, 0x7B14, 0x3002, 0x000A, 0x0020, 0x0020, 0x0020, 0x0020,
     0x0033, 0x002E, 0x0020, 0x627F, 0x63A5, 0x524D, 0x6587, 0xFF0C, 0x81EA, 0x7136, 0x8FC7,
     0x6E21, 0xFF0C, 0x4E14, 0x7B26, 0x5408, 0x5927, 0x7EB2, 0x7684, 0x6574, 0x4F53, 0x8D70,
     0x5411, 0x3002, 0x000A, 0x0020, 0x0020, 0x0020, 0x0020, 0x0034, 0x002E, 0x0020, 0x4EE5,
     0x201C, 0x7B2C, 0x0020]"

definition prompt_part5 :: js_string where
  "prompt_part5 =
    [0x0020, 0x7AE0, 0xFF1A, 0x005B, 0x6807, 0x9898, 0x005D, 0x201D, 0x4F5C, 0x4E3A, 0x5F00,
     0x5934, 0x3002, 0x000A, 0x0020, 0x0020, 0x0020, 0x0020, 0x000A, 0x0020, 0x0020, 0x0020,
     0x0020, 0x76F4, 0x63A5, 0x8FD4, 0x56DE, 0x7AE0, 0x8282, 0x6B63, 0x6587, 0xFF0C, 0x65E0,
     0x9700, 0x4EFB, 0x4F55, 0x89E3, 0x91CA, 0x3002, 0x000A, 0x0020, 0x0020]"

definition chapter_prompt ::
  "js_string \<Rightarrow> js_string \<Rightarrow> nat \<Rightarrow> js_string \<Rightarrow> js_string" where
  "chapter_prompt currentStory blueprint chapterIndex chatContext =
     prompt_part0 @ chatContext @ prompt_part1 @ blueprint @ prompt_part2 @
     slice_last 2000 currentStory @ prompt_part3 @ decimal chapterIndex @ prompt_part4 @
     decimal chapterIndex @ prompt_part5"

text \<open>A part of a request: text, or inline image data with its MIME type. The data is
  \<open>imageBase64.split(',')[1]\<close>, \<open>undefined\<close> when the data URL has no comma.\<close>

datatype part = TextPart js_string | InlineData string "js_string option"

definition image_part :: "js_string \<Rightarrow> part" where
  "image_part imageBase64 =
     InlineData ''image/jpeg'' (index_opt (split_on 0x002C imageBase64) 1)"

text \<open>The temperature is a constant of each call; it is kept in hundredths.\<close>

record content_request =
  req_model :: string
  req_parts :: "part list"
  req_temperature :: nat

definition writeNextChapter_request ::
  "js_string \<Rightarrow> js_string \<Rightarrow> nat \<Rightarrow> js_string option \<Rightarrow> js_string \<Rightarrow> content_request" where
  "writeNextChapter_request currentStory blueprint chapterIndex imageBase64 chatContext =
     \<lparr> req_model = ''gemini-3-pro-preview'',
       req_parts =
         TextPart (chapter_prompt currentStory blueprint chapterIndex chatContext) #
         (case imageBase64 of
            None \<Rightarrow> []
          | Some img \<Rightarrow> if truthy img then [image_part img] else []),
       req_temperature = 85 \<rparr>"

text \<open>\<open>writeNextChapter\<close> returns \<open>response.text || ""\<close>.\<close>

definition writeNextChapter_result :: "response_text \<Rightarrow> js_string" where
  "writeNextChapter_result rt = or_default rt []"

text \<open>\<open>chatWithStory\<close> returns \<open>response.text\<close> or a fixed sentence.\<close>

definition CHAT_NO_REPLY :: js_string where
  "CHAT_NO_REPLY =
    [0x6682, 0x65F6, 0x65E0, 0x6CD5, 0x56DE, 0x5E94, 0x3002]"

definition chatWithStory_result :: "response_text \<Rightarrow> js_string" where
  "chatWithStory_result rt = or_default rt CHAT_NO_REPLY"

text \<open>\<open>generateSpeech\<close> sends a fixed sentence followed by the text, and the voice name.\<close>

definition SPEECH_PREFIX :: js_string where
  "SPEECH_PREFIX =
    [0x8BF7, 0x7528, 0x5145, 0x6EE1, 0x6545, 0x4E8B, 0x611F, 0x7684, 0x8BED, 0x6C14, 0x6717,
     0x8BFB, 0xFF1A]"

definition VOICE_KORE :: js_string where
  "VOICE_KORE =
    [0x004B, 0x006F, 0x0072, 0x0065]"

definition VOICE_PUCK :: js_string where
  "VOICE_PUCK =
    [0x0050, 0x0075, 0x0063, 0x006B]"

record speech_request =
  speech_text :: js_string
  speech_voice :: js_string

definition generateSpeech_request :: "js_string \<Rightarrow> js_string \<Rightarrow> speech_request" where
  "generateSpeech_request text voiceName =
     \<lparr> speech_text = SPEECH_PREFIX @ text, speech_voice = voiceName \<rparr>"

section \<open>The application component\<close>

subsection \<open>State\<close>

text \<open>\<open>AdvancedStoryState\<close>: the fields of \<open>StoryState\<close> and the two the component adds.
  The chapter counter starts at 1 and is only ever set to 1 or to a successor, so it is a
  natural number. The fields \<open>image\<close> and \<open>paragraph\<close> of the source are \<open>image_data\<close>
  and \<open>paragraph_text\<close> here.\<close>

record story_state =
  image_data :: "js_string option"
  analysis :: js_string
  paragraph_text :: js_string
  isLoading :: bool
  error :: "js_string option"
  blueprint :: js_string
  currentChapter :: nat

text \<open>The component: its \<open>useState\<close> cells and its refs. \<open>audioContextRef\<close> is \<open>None\<close> for
  \<open>null\<close>; for a context it holds how many source nodes the context has created, which
  numbers the nodes. \<open>sourceRef\<close> holds the number of a node. \<open>storyEndRef\<close> (scrolling) is
  left out.\<close>

record app =
  state :: story_state
  currentGuidance :: js_string
  isAutoGenerating :: bool
  isPlaying :: bool
  playingChapterIndex :: "nat option"
  isEditingBlueprint :: bool
  editableBlueprint :: js_string
  audioContextRef :: "nat option"
  sourceRef :: "nat option"
  stopSignal :: bool
  isReadingRef :: bool

definition initial_state :: story_state where
  "initial_state =
     \<lparr> image_data = None, analysis = [], paragraph_text = [], isLoading = False, error = None,
       blueprint = [], currentChapter = 1 \<rparr>"

definition initial_app :: app where
  "initial_app =
     \<lparr> state = initial_state, currentGuidance = [], isAutoGenerating = False,
       isPlaying = False, playingChapterIndex = None, isEditingBlueprint = False,
       editableBlueprint = [], audioContextRef = None, sourceRef = None,
       stopSignal = False, isReadingRef = False \<rparr>"

text \<open>What a handler does to the outside: the remote calls it starts, and what it asks
  of the audio nodes and the timer. \<open>CallDecodeAudio\<close> stands for
  \<open>decodeBase64ToUint8Array\<close> followed by the awaited \<open>decodeAudioData\<close>; both live in
  \<open>utils/audioUtils\<close>, and their outcome is an input of the model.\<close>

datatype action =
    CallAnalyzeAndPlan js_string
  | CallWriteNextChapter content_request
  | CallGenerateSpeech speech_request
  | CallDecodeAudio js_string
  | SourceStart nat
  | SourceStop nat
  | SetTimeout nat
  | ConsoleError

text \<open>The messages of the error slot and the default guidance, as in the source.\<close>

definition ERR_ANALYZE :: js_string where
  "ERR_ANALYZE =
    [0x521B, 0x4F5C, 0x542F, 0x52A8, 0x5931, 0x8D25, 0xFF0C, 0x8BF7, 0x68C0, 0x67E5, 0x7F51,
     0x7EDC, 0x3002]"

definition ERR_GENERATE :: js_string where
  "ERR_GENERATE =
    [0x521B, 0x4F5C, 0x8FC7, 0x7A0B, 0x4E2D, 0x65AD, 0xFF0C, 0x8BF7, 0x91CD, 0x8BD5, 0x3002]"

definition ERR_NARRATE :: js_string where
  "ERR_NARRATE =
    [0x6717, 0x8BF5, 0x8FC7, 0x7A0B, 0x4E2D, 0x9047, 0x5230, 0x95EE, 0x9898, 0x3002]"

definition DEFAULT_GUIDANCE :: js_string where
  "DEFAULT_GUIDANCE =
    [0x8BF7, 0x6839, 0x636E, 0x56FE, 0x7247, 0x610F, 0x5883, 0x548C, 0x5927, 0x7EB2, 0x8981,
     0x6C42, 0xFF0C, 0x81EA, 0x7136, 0x63A8, 0x8FDB, 0x5267, 0x60C5, 0x3002]"

definition PARA_SEP :: js_string where
  "PARA_SEP =
    [0x000A, 0x000A]"

subsection \<open>Audio control\<close>

definition stopAudio :: "app \<Rightarrow> app \<times> action list" where
  "stopAudio a =
     (a\<lparr> isReadingRef := False, sourceRef := None, isPlaying := False,
         playingChapterIndex := None \<rparr>,
      (case sourceRef a of None \<Rightarrow> [] | Some n \<Rightarrow> [SourceStop n]))"

subsection \<open>Image upload\<close>

text \<open>\<open>handleImageUpload\<close> returns at once when no file was chosen; otherwise the file
  reader later calls \<open>onload\<close> with the data URL. \<open>handleImageUpload_onload\<close> is \<open>onload\<close> up
  to its \<open>await\<close>; \<open>handleImageUpload_settled\<close> is the rest, run on the state of that later
  moment (the \<open>prev\<close> of the updater).\<close>

definition handleImageUpload_onload :: "js_string \<Rightarrow> app \<Rightarrow> app \<times> action list" where
  "handleImageUpload_onload base64 a =
     (let a1 = a\<lparr> state := (state a)\<lparr> image_data := Some base64, isLoading := True,
                     error := None, paragraph_text := [], analysis := [], blueprint := [],
                     currentChapter := 1 \<rparr>,
                   currentGuidance := [] \<rparr>;
          (a2, acts) = stopAudio a1
      in (a2, acts @ [CallAnalyzeAndPlan base64]))"

definition handleImageUpload_settled ::
  "response_text outcome \<Rightarrow> app \<Rightarrow> app \<times> action list" where
  "handleImageUpload_settled r a =
     (case r of
        Resolved rt \<Rightarrow>
          (let result = analyzeAndPlan_parse rt in
           (a\<lparr> state := (state a)\<lparr> isLoading := False, analysis := plan_analysis result,
                    blueprint := plan_blueprint result,
                    paragraph_text := plan_firstChapter result \<rparr> \<rparr>, []))
      | Rejected \<Rightarrow>
          (a\<lparr> state := (state a)\<lparr> isLoading := False, error := Some ERR_ANALYZE \<rparr> \<rparr>, []))"

subsection \<open>Blueprint editing, stop, error dismissal\<close>

definition handleSaveBlueprint :: "app \<Rightarrow> app" where
  "handleSaveBlueprint a =
     a\<lparr> state := (state a)\<lparr> blueprint := editableBlueprint a \<rparr>,
        isEditingBlueprint := False \<rparr>"

text \<open>The button of the blueprint panel saves when editing and starts editing otherwise.\<close>

definition blueprintButton :: "app \<Rightarrow> app" where
  "blueprintButton a =
     (if isEditingBlueprint a then handleSaveBlueprint a
      else a\<lparr> isEditingBlueprint := True \<rparr>)"

text \<open>The effect that copies \<open>state.blueprint\<close> into the edit buffer whenever it changed
  between two renders.\<close>

definition blueprint_effect :: "app \<Rightarrow> app \<Rightarrow> app" where
  "blueprint_effect before after =
     (if blueprint (state after) \<noteq> blueprint (state before)
      then after\<lparr> editableBlueprint := blueprint (state after) \<rparr> else after)"

definition handleStop :: "app \<Rightarrow> app" where
  "handleStop a = a\<lparr> stopSignal := True, isAutoGenerating := False \<rparr>"

definition dismissError :: "app \<Rightarrow> app" where
  "dismissError a = a\<lparr> state := (state a)\<lparr> error := None \<rparr> \<rparr>"

subsection \<open>Chapter generation\<close>

text \<open>What the rest of \<open>generateNextPartOfStory\<close> keeps from the render it was called in:
  the local variables \<open>currentContent\<close> and \<open>chapter\<close>.\<close>

record gen_closure =
  gen_content :: js_string
  gen_chapter :: nat

text \<open>The call up to its \<open>await\<close>; \<open>None\<close> is the early return of the guard.\<close>

definition generateNextPartOfStory :: "app \<Rightarrow> (app \<times> gen_closure \<times> action list) option" where
  "generateNextPartOfStory a =
     (if isAutoGenerating a \<or> \<not> truthy (blueprint (state a)) then None
      else
        (let chapter = currentChapter (state a) + 1;
             currentContent = paragraph_text (state a);
             guidanceToUse = or_default (Some (currentGuidance a)) DEFAULT_GUIDANCE
         in Some (a\<lparr> isAutoGenerating := True, stopSignal := False \<rparr>,
                  \<lparr> gen_content = currentContent, gen_chapter = chapter \<rparr>,
                  [CallWriteNextChapter
                     (writeNextChapter_request currentContent (blueprint (state a)) chapter
                        (image_data (state a)) guidanceToUse)])))"

text \<open>The rest of the call, once \<open>writeNextChapter\<close> has settled: the updater runs on the
  state of that moment and takes the text and the counter from the closure.\<close>

definition generateNextPartOfStory_settled ::
  "gen_closure \<Rightarrow> response_text outcome \<Rightarrow> app \<Rightarrow> app \<times> action list" where
  "generateNextPartOfStory_settled k r a =
     (case r of
        Resolved rt \<Rightarrow>
          (let nextPart = writeNextChapter_result rt;
               currentContent = gen_content k @ PARA_SEP @ nextPart
           in (a\<lparr> state := (state a)\<lparr> paragraph_text := currentContent,
                        currentChapter := gen_chapter k \<rparr>,
                    isAutoGenerating := False \<rparr>, []))
      | Rejected \<Rightarrow>
          (a\<lparr> state := (state a)\<lparr> error := Some ERR_GENERATE \<rparr>,
              isAutoGenerating := False \<rparr>, []))"

subsection \<open>Narration\<close>

text \<open>The split pattern is two line feeds followed by (lookahead) U+7B2C, any code units
  but line terminators, and U+7AE0: a chapter heading. \<open>dot_star_then\<close> is \<open>.*c\<close>: at each
  position the closing code unit is here, or \<open>.\<close> takes one code unit that is no line
  terminator.\<close>

definition is_line_terminator :: "16 word \<Rightarrow> bool" where
  "is_line_terminator c = (c = 0x000A \<or> c = 0x000D \<or> c = 0x2028 \<or> c = 0x2029)"

fun dot_star_then :: "16 word \<Rightarrow> js_string \<Rightarrow> bool" where
  "dot_star_then c [] = False"
| "dot_star_then c (x # xs) = (x = c \<or> (\<not> is_line_terminator x \<and> dot_star_then c xs))"

definition heading_ahead :: "js_string \<Rightarrow> bool" where
  "heading_ahead s = (case s of [] \<Rightarrow> False | c # cs \<Rightarrow> c = 0x7B2C \<and> dot_star_then 0x7AE0 cs)"

text \<open>\<open>separator_here s\<close>: the pattern matches at the start of \<open>s\<close>.
  \<open>s.split(/\n\n(?=...)/)\<close>: the positions are tried from left to right; at a match
  the piece read so far is closed and the scan goes on behind the two line feeds; the
  last piece ends the list. The first argument is the piece read so far, reversed.\<close>

definition separator_here :: "js_string \<Rightarrow> bool" where
  "separator_here s =
     (case s of
        c # d # rest \<Rightarrow> c = 0x000A \<and> d = 0x000A \<and> heading_ahead rest
      | _ \<Rightarrow> False)"

fun split_go :: "js_string \<Rightarrow> js_string \<Rightarrow> js_string list" where
  "split_go acc [] = [rev acc]"
| "split_go acc [c] = [rev (c # acc)]"
| "split_go acc (c # d # rest) =
     (if separator_here (c # d # rest) then rev acc # split_go [] rest
      else split_go (c # acc) (d # rest))"

definition split_chapters :: "js_string \<Rightarrow> js_string list" where
  "split_chapters s = split_go [] s"

text \<open>The loop of \<open>handleReadFullStory\<close> is suspended at one of four \<open>await\<close>s; what it
  keeps there is the chapter list and the index \<open>i\<close>.\<close>

datatype wait = AwaitSpeech | AwaitDecode | AwaitEnded | AwaitPause

record narration =
  chapters :: "js_string list"
  idx :: nat
  waiting :: wait

text \<open>What resumes a suspended loop: the synthesis call or the decoding settling, the
  \<open>onended\<close> event of the source node, the timer.\<close>

datatype settled =
    SpeechSettled "js_string outcome"
  | DecodeSettled "unit outcome"
  | PlaybackEnded
  | TimerFired

definition voice_of :: "nat \<Rightarrow> js_string" where
  "voice_of i = (if i mod 2 = 0 then VOICE_KORE else VOICE_PUCK)"

text \<open>The \<open>finally\<close> block, and the \<open>catch\<close> block followed by it. A result \<open>None\<close> in the
  second component means that the function has returned.\<close>

definition narrate_finally :: "app \<Rightarrow> app \<times> narration option \<times> action list" where
  "narrate_finally a =
     ((if isReadingRef a
       then a\<lparr> isPlaying := False, playingChapterIndex := None, isReadingRef := False \<rparr>
       else a), None, [])"

definition narrate_catch :: "app \<Rightarrow> app \<times> narration option \<times> action list" where
  "narrate_catch a =
     (case narrate_finally (a\<lparr> state := (state a)\<lparr> error := Some ERR_NARRATE \<rparr> \<rparr>) of
        (a', n, acts) \<Rightarrow> (a', n, ConsoleError # acts))"

text \<open>The loop from its head with index \<open>i\<close>, up to the first \<open>await\<close>.\<close>

definition narrate_from ::
  "js_string list \<Rightarrow> nat \<Rightarrow> app \<Rightarrow> app \<times> narration option \<times> action list" where
  "narrate_from chs i a =
     (if i < length chs then
        (if \<not> isReadingRef a then narrate_finally a
         else
           (let chapterText = chs ! i;
                voice = voice_of i;
                textToRead = slice_first 1500 chapterText
            in (a\<lparr> playingChapterIndex := Some (i + 1) \<rparr>,
                Some \<lparr> chapters = chs, idx = i, waiting = AwaitSpeech \<rparr>,
                [CallGenerateSpeech (generateSpeech_request textToRead voice)])))
      else narrate_finally a)"

text \<open>The click on the narration button.\<close>

definition handleReadFullStory :: "app \<Rightarrow> app \<times> narration option \<times> action list" where
  "handleReadFullStory a =
     (if isPlaying a then (case stopAudio a of (a', acts) \<Rightarrow> (a', None, acts))
      else if \<not> truthy (paragraph_text (state a)) then (a, None, [])
      else
        (let a1 = a\<lparr> isPlaying := True, isReadingRef := True \<rparr>;
             chs = split_chapters (paragraph_text (state a));
             a2 = (if audioContextRef a1 = None then a1\<lparr> audioContextRef := Some 0 \<rparr> else a1)
         in narrate_from chs 0 a2))"

text \<open>A suspended loop resumes when what it waits for arrives; anything else leaves it
  suspended. A rejection, and a missing audio context, are thrown into the \<open>catch\<close>
  block.\<close>

definition narration_resume ::
  "narration \<Rightarrow> settled \<Rightarrow> app \<Rightarrow> app \<times> narration option \<times> action list" where
  "narration_resume n s a =
     (case (waiting n, s) of
        (AwaitSpeech, SpeechSettled (Resolved audioBase64)) \<Rightarrow>
          (if \<not> isReadingRef a then narrate_finally a
           else (a, Some (n\<lparr> waiting := AwaitDecode \<rparr>), [CallDecodeAudio audioBase64]))
      | (AwaitSpeech, SpeechSettled Rejected) \<Rightarrow> narrate_catch a
      | (AwaitDecode, DecodeSettled (Resolved u)) \<Rightarrow>
          (case audioContextRef a of
             None \<Rightarrow> narrate_catch a
           | Some created \<Rightarrow>
               (a\<lparr> audioContextRef := Some (created + 1), sourceRef := Some created \<rparr>,
                Some (n\<lparr> waiting := AwaitEnded \<rparr>), [SourceStart created]))
      | (AwaitDecode, DecodeSettled Rejected) \<Rightarrow> narrate_catch a
      | (AwaitEnded, PlaybackEnded) \<Rightarrow>
          (if idx n < length (chapters n) - 1 \<and> isReadingRef a
           then (a, Some (n\<lparr> waiting := AwaitPause \<rparr>), [SetTimeout 800])
           else narrate_from (chapters n) (idx n + 1) a)
      | (AwaitPause, TimerFired) \<Rightarrow> narrate_from (chapters n) (idx n + 1) a
      | _ \<Rightarrow> (a, Some n, []))"

text \<open>\<open>xs.join(sep)\<close>, the inverse of a split.\<close>

fun join :: "js_string \<Rightarrow> js_string list \<Rightarrow> js_string" where
  "join sep [] = []"
| "join sep [x] = x"
| "join sep (x # y # ys) = x @ sep @ join sep (y # ys)"

text \<open>An undisturbed narration of chapter \<open>i\<close> of \<open>n\<close>: the synthesis resolves with some
  audio, the decoding resolves, the playback ends, and the timer of the pause fires unless
  the chapter is the last. \<open>chapter_actions\<close> is what the loop is expected to do for the
  chapter; \<open>base\<close> is the number of source nodes created before the narration.\<close>

definition chapter_script :: "nat \<Rightarrow> nat \<Rightarrow> js_string \<Rightarrow> settled list" where
  "chapter_script n i audio =
     [SpeechSettled (Resolved audio), DecodeSettled (Resolved ()), PlaybackEnded] @
     (if i < n - 1 then [TimerFired] else [])"

definition speech_of :: "js_string list \<Rightarrow> nat \<Rightarrow> action" where
  "speech_of chs i =
     CallGenerateSpeech
       (generateSpeech_request (slice_first 1500 (chs ! i))
          (if even i then VOICE_KORE else VOICE_PUCK))"

definition chapter_actions :: "js_string list \<Rightarrow> nat \<Rightarrow> nat \<Rightarrow> js_string \<Rightarrow> action list" where
  "chapter_actions chs base i audio =
     [speech_of chs i, CallDecodeAudio audio, SourceStart (base + i)] @
     (if i < length chs - 1 then [SetTimeout 800] else [])"

section \<open>The chat component\<close>

datatype role = User | Assistant

record message =
  role :: role
  content :: js_string

record chat =
  messages :: "message list"
  input :: js_string
  isTyping :: bool

text \<open>The request of \<open>chatWithStory\<close>: the history with the role \<open>assistant\<close> renamed to
  \<open>model\<close>, then the new message of the user, with the image when there is one. The
  system instruction is the same in every call and is left out.\<close>

record chat_turn =
  turn_role :: string
  turn_parts :: "part list"

definition chatWithStory_request ::
  "message list \<Rightarrow> js_string \<Rightarrow> js_string option \<Rightarrow> chat_turn list" where
  "chatWithStory_request history msg imageBase64 =
     map (\<lambda>h. \<lparr> turn_role = (if role h = Assistant then ''model'' else ''user''),
                turn_parts = [TextPart (content h)] \<rparr>) history @
     [\<lparr> turn_role = ''user'',
        turn_parts = TextPart msg #
          (case imageBase64 of
             None \<Rightarrow> []
           | Some img \<Rightarrow> if truthy img then [image_part img] else []) \<rparr>]"

definition CHAT_FALLBACK :: js_string where
  "CHAT_FALLBACK =
    [0x8FDE, 0x63A5, 0x52A9, 0x624B, 0x65F6, 0x9047, 0x5230, 0x4E86, 0x70B9, 0x95EE, 0x9898,
     0x3002]"

text \<open>\<open>handleSend\<close> up to its \<open>await\<close>; \<open>None\<close> is the early return of the guard.\<close>

definition handleSend :: "js_string option \<Rightarrow> chat \<Rightarrow> (chat \<times> chat_turn list) option" where
  "handleSend imageBase64 c =
     (if \<not> truthy (js_trim (input c)) \<or> isTyping c then None
      else
        (let userMsg = \<lparr> role = User, content = input c \<rparr> in
         Some (c\<lparr> messages := messages c @ [userMsg], input := [], isTyping := True \<rparr>,
               chatWithStory_request (messages c) (input c) imageBase64)))"

text \<open>The rest of \<open>handleSend\<close>, once \<open>chatWithStory\<close> has settled. The second component
  is the reply handed to \<open>onAssistantReply\<close>, which the application binds to
  \<open>setCurrentGuidance\<close>.\<close>

definition handleSend_settled :: "response_text outcome \<Rightarrow> chat \<Rightarrow> chat \<times> js_string option" where
  "handleSend_settled r c =
     (case r of
        Resolved rt \<Rightarrow>
          (let response = chatWithStory_result rt in
           (c\<lparr> messages := messages c @ [\<lparr> role = Assistant, content = response \<rparr>],
               isTyping := False \<rparr>, Some response))
      | Rejected \<Rightarrow>
          (c\<lparr> messages := messages c @ [\<lparr> role = Assistant, content = CHAT_FALLBACK \<rparr>],
              isTyping := False \<rparr>, None))"

text \<open>Everything that happens to the chat component: the form is submitted, the pending
  call settles, the input field changes.\<close>

datatype chat_event = Submit | ReplySettled "response_text outcome" | InputChange js_string

definition chat_step :: "js_string option \<Rightarrow> chat_event \<Rightarrow> chat \<Rightarrow> chat" where
  "chat_step imageBase64 e c =
     (case e of
        Submit \<Rightarrow> (case handleSend imageBase64 c of None \<Rightarrow> c | Some (c', req) \<Rightarrow> c')
      | ReplySettled r \<Rightarrow> fst (handleSend_settled r c)
      | InputChange v \<Rightarrow> c\<lparr> input := v \<rparr>)"

definition chat_run :: "js_string option \<Rightarrow> chat_event list \<Rightarrow> chat \<Rightarrow> chat" where
  "chat_run imageBase64 es c = foldl (\<lambda>c e. chat_step imageBase64 e c) c es"

text \<open>The assistant message that a settled call leaves in the list.\<close>

definition assistant_message :: "response_text outcome \<Rightarrow> message" where
  "assistant_message r =
     (case r of
        Resolved rt \<Rightarrow> \<lparr> role = Assistant, content = chatWithStory_result rt \<rparr>
      | Rejected \<Rightarrow> \<lparr> role = Assistant, content = CHAT_FALLBACK \<rparr>)"

definition is_reply :: "chat_event \<Rightarrow> bool" where
  "is_reply e = (case e of ReplySettled r \<Rightarrow> True | _ \<Rightarrow> False)"

section \<open>The application over time\<close>

text \<open>
  Between two events the page is idle. A handler runs up to its \<open>await\<close> and leaves the
  rest of its body behind, which runs when the awaited call settles, on the state of that
  moment. The world is the component together with the suspended calls: the number of
  image analyses that are out (their rest keeps nothing from the call), the closures of
  the chapter generations and the narration loops that have not returned, and the log of
  the actions so far.
\<close>

record world =
  w_app :: app
  w_analyses :: nat
  w_gens :: "gen_closure list"
  w_narrs :: "narration list"
  w_log :: "action list"

definition initial_world :: world where
  "initial_world =
     \<lparr> w_app = initial_app, w_analyses = 0, w_gens = [], w_narrs = [], w_log = [] \<rparr>"

datatype event =
    Upload js_string
  | AnalysisSettled "response_text outcome"
  | ClickBlueprintButton
  | EditBlueprint js_string
  | ClickGenerate
  | GenerationSettled nat "response_text outcome"
  | ClickStop
  | ClickRead
  | NarrationSettled nat settled
  | DismissError
  | AssistantReply js_string

definition remove_nth :: "nat \<Rightarrow> 'a list \<Rightarrow> 'a list" where
  "remove_nth j xs = take j xs @ drop (Suc j) xs"

text \<open>A render follows every event, and with it the effect on the edit buffer.\<close>

definition commit :: "world \<Rightarrow> app \<Rightarrow> action list \<Rightarrow> world" where
  "commit w a acts =
     w\<lparr> w_app := blueprint_effect (w_app w) a, w_log := w_log w @ acts \<rparr>"

definition step :: "event \<Rightarrow> world \<Rightarrow> world" where
  "step e w =
     (case e of
        Upload base64 \<Rightarrow>
          (case handleImageUpload_onload base64 (w_app w) of
             (a, acts) \<Rightarrow> (commit w a acts)\<lparr> w_analyses := w_analyses w + 1 \<rparr>)
      | AnalysisSettled r \<Rightarrow>
          (if 0 < w_analyses w then
             (case handleImageUpload_settled r (w_app w) of
                (a, acts) \<Rightarrow> (commit w a acts)\<lparr> w_analyses := w_analyses w - 1 \<rparr>)
           else w)
      | ClickBlueprintButton \<Rightarrow> commit w (blueprintButton (w_app w)) []
      | EditBlueprint t \<Rightarrow> commit w ((w_app w)\<lparr> editableBlueprint := t \<rparr>) []
      | ClickGenerate \<Rightarrow>
          (case generateNextPartOfStory (w_app w) of
             None \<Rightarrow> w
           | Some (a, k, acts) \<Rightarrow> (commit w a acts)\<lparr> w_gens := w_gens w @ [k] \<rparr>)
      | GenerationSettled j r \<Rightarrow>
          (if j < length (w_gens w) then
             (case generateNextPartOfStory_settled (w_gens w ! j) r (w_app w) of
                (a, acts) \<Rightarrow> (commit w a acts)\<lparr> w_gens := remove_nth j (w_gens w) \<rparr>)
           else w)
      | ClickStop \<Rightarrow> commit w (handleStop (w_app w)) []
      | ClickRead \<Rightarrow>
          (case handleReadFullStory (w_app w) of
             (a, n, acts) \<Rightarrow>
               (commit w a acts)\<lparr> w_narrs := w_narrs w @ (case n of None \<Rightarrow> [] | Some l \<Rightarrow> [l]) \<rparr>)
      | NarrationSettled j s \<Rightarrow>
          (if j < length (w_narrs w) then
             (case narration_resume (w_narrs w ! j) s (w_app w) of
                (a, n, acts) \<Rightarrow>
                  (commit w a acts)
                    \<lparr> w_narrs := (case n of None \<Rightarrow> remove_nth j (w_narrs w)
                                   | Some l \<Rightarrow> (w_narrs w)[j := l]) \<rparr>)
           else w)
      | DismissError \<Rightarrow> commit w (dismissError (w_app w)) []
      | AssistantReply t \<Rightarrow> commit w ((w_app w)\<lparr> currentGuidance := t \<rparr>) [])"

definition run :: "event list \<Rightarrow> world \<Rightarrow> world" where
  "run es w = foldl (\<lambda>w e. step e w) w es"

text \<open>What the rendered page lets happen: a control that is not rendered, or is disabled,
  cannot be clicked, and only a suspended call can settle, with what it waits for. The
  file input is rendered while there is no image; the blueprint panel with its button
  while there is a blueprint, its text area while editing; the narration button while
  there are a blueprint and a story; the console with the generate button while there is
  a story, nothing is loading and the counter is below 6; the generate button is disabled
  and the stop button rendered while \<open>isAutoGenerating\<close>; the button that dismisses the
  error while there is one.\<close>

definition console_shown :: "app \<Rightarrow> bool" where
  "console_shown a =
     (truthy (paragraph_text (state a)) \<and> \<not> isLoading (state a) \<and>
      currentChapter (state a) < 6)"

definition awaited :: "wait \<Rightarrow> settled \<Rightarrow> bool" where
  "awaited wt s =
     (case (wt, s) of
        (AwaitSpeech, SpeechSettled r) \<Rightarrow> True
      | (AwaitDecode, DecodeSettled r) \<Rightarrow> True
      | (AwaitEnded, PlaybackEnded) \<Rightarrow> True
      | (AwaitPause, TimerFired) \<Rightarrow> True
      | _ \<Rightarrow> False)"

definition enabled :: "event \<Rightarrow> world \<Rightarrow> bool" where
  "enabled e w =
     (let a = w_app w in
      case e of
        Upload base64 \<Rightarrow>
          (case image_data (state a) of None \<Rightarrow> True | Some img \<Rightarrow> \<not> truthy img)
      | AnalysisSettled r \<Rightarrow> 0 < w_analyses w
      | ClickBlueprintButton \<Rightarrow> truthy (blueprint (state a))
      | EditBlueprint t \<Rightarrow> truthy (blueprint (state a)) \<and> isEditingBlueprint a
      | ClickGenerate \<Rightarrow> console_shown a \<and> \<not> isAutoGenerating a
      | GenerationSettled j r \<Rightarrow> j < length (w_gens w)
      | ClickStop \<Rightarrow> console_shown a \<and> isAutoGenerating a
      | ClickRead \<Rightarrow> truthy (blueprint (state a)) \<and> truthy (paragraph_text (state a))
      | NarrationSettled j s \<Rightarrow>
          j < length (w_narrs w) \<and> awaited (waiting (w_narrs w ! j)) s
      | DismissError \<Rightarrow> error (state a) \<noteq> None
      | AssistantReply t \<Rightarrow> True)"

fun feasible :: "event list \<Rightarrow> world \<Rightarrow> bool" where
  "feasible [] w = True"
| "feasible (e # es) w = (enabled e w \<and> feasible es (step e w))"

text \<open>A stretch of one story in which the chapters are written one at a time: no image
  is uploaded, and the generate button is only clicked when no generation is in progress,
  that is, when no call to \<open>writeNextChapter\<close> is still out.\<close>

fun one_at_a_time :: "event list \<Rightarrow> world \<Rightarrow> bool" where
  "one_at_a_time [] w = True"
| "one_at_a_time (e # es) w =
     ((case e of
         Upload base64 \<Rightarrow> False
       | ClickGenerate \<Rightarrow> w_gens w = []
       | _ \<Rightarrow> True) \<and>
      one_at_a_time es (step e w))"

text \<open>The suspended generations agree with the component: there is at most one, and the
  chapter number it will write is the next one.\<close>

definition gens_agree :: "world \<Rightarrow> bool" where
  "gens_agree w =
     (length (w_gens w) \<le> 1 \<and>
      list_all (\<lambda>k. gen_chapter k = currentChapter (state (w_app w)) + 1) (w_gens w))"

definition counter :: "world \<Rightarrow> nat" where
  "counter w = currentChapter (state (w_app w))"

definition story :: "world \<Rightarrow> js_string" where
  "story w = paragraph_text (state (w_app w))"

text \<open>The same for the story text: what the suspended generation will extend is the
  present story.\<close>

definition story_agree :: "world \<Rightarrow> bool" where
  "story_agree w =
     (length (w_gens w) \<le> 1 \<and> list_all (\<lambda>k. gen_content k = story w) (w_gens w))"

text \<open>The settling of an image analysis belongs to the upload that started it.\<close>

definition is_analysis :: "event \<Rightarrow> bool" where
  "is_analysis e = (case e of AnalysisSettled r \<Rightarrow> True | _ \<Rightarrow> False)"

section \<open>Sample states\<close>

text \<open>A component in the middle of a story: two chapters written, the second one being
  narrated by source node 0, an error shown, guidance pending. The story is
  \<open>A\<close>, blank line, U+7B2C \<open>2\<close> U+7AE0 \<open>B\<close>: a first chapter and a second one under its
  heading.\<close>

definition sample_story :: js_string where
  "sample_story = [0x0041, 0x000A, 0x000A, 0x7B2C, 0x0032, 0x7AE0, 0x0042]"

definition sample_app :: app where
  "sample_app =
     \<lparr> state = \<lparr> image_data = Some [0x0069, 0x002C, 0x006A], analysis = [0x0061],
                 paragraph_text = sample_story, isLoading = False, error = Some [0x0065],
                 blueprint = [0x0062], currentChapter = 2 \<rparr>,
       currentGuidance = [0x0067], isAutoGenerating = False, isPlaying = True,
       playingChapterIndex = Some 2, isEditingBlueprint = False, editableBlueprint = [0x0062],
       audioContextRef = Some 1, sourceRef = Some 0, stopSignal = False,
       isReadingRef = True \<rparr>"

text \<open>The same component at rest: nothing playing, no error.\<close>

definition idle_app :: app where
  "idle_app =
     sample_app\<lparr> state := (state sample_app)\<lparr> error := None \<rparr>, isPlaying := False,
       playingChapterIndex := None, audioContextRef := None, sourceRef := None,
       isReadingRef := False \<rparr>"

definition idle_world :: world where
  "idle_world =
     \<lparr> w_app = idle_app, w_analyses = 0, w_gens = [], w_narrs = [], w_log = [] \<rparr>"

definition sample_narration :: narration where
  "sample_narration =
     \<lparr> chapters = split_chapters sample_story, idx = 1, waiting = AwaitSpeech \<rparr>"

text \<open>The component at rest with a story of one chapter of 1600 code units.\<close>

definition long_app :: app where
  "long_app = idle_app\<lparr> state := (state idle_app)\<lparr> paragraph_text := replicate 1600 0x0041 \<rparr> \<rparr>"

text \<open>The narration button clicked three times while the first synthesis call is out:
  start, stop, start again. Then the first loop gets its synthesis result, decodes, plays,
  pauses and goes on to the next chapter.\<close>

definition stop_and_restart :: "event list" where
  "stop_and_restart = [ClickRead, ClickRead, ClickRead]"

definition first_loop_goes_on :: "event list" where
  "first_loop_goes_on =
     [NarrationSettled 0 (SpeechSettled (Resolved [0x0078])),
      NarrationSettled 0 (DecodeSettled (Resolved ())),
      NarrationSettled 0 PlaybackEnded,
      NarrationSettled 0 TimerFired]"

text \<open>The chapters of the sample story, a narration loop over them, and the worlds (with
  no image analysis out) and components that the sample runs pass through.\<close>

definition sample_chapters :: "js_string list" where
  "sample_chapters = [[0x0041], [0x7B2C, 0x0032, 0x7AE0, 0x0042]]"

definition loop_at :: "nat \<Rightarrow> wait \<Rightarrow> narration" where
  "loop_at i wt = \<lparr> chapters = sample_chapters, idx = i, waiting = wt \<rparr>"

definition world_of :: "app \<Rightarrow> gen_closure list \<Rightarrow> narration list \<Rightarrow> action list \<Rightarrow> world" where
  "world_of a gs ns l =
     \<lparr> w_app = a, w_analyses = 0, w_gens = gs, w_narrs = ns, w_log = l \<rparr>"

definition narrating_app :: app where
  "narrating_app =
     idle_app\<lparr> isPlaying := True, isReadingRef := True, audioContextRef := Some 0,
       playingChapterIndex := Some 1 \<rparr>"

definition stopped_app :: app where
  "stopped_app = idle_app\<lparr> audioContextRef := Some 0 \<rparr>"

definition playing_app :: app where
  "playing_app = narrating_app\<lparr> audioContextRef := Some 1, sourceRef := Some 0 \<rparr>"

text \<open>Two generations that overlap: the generate button, the stop button while the call
  is out, the generate button again, and then both calls resolve, the first with the
  text \<open>C\<close> and the second with the text \<open>D\<close>.\<close>

definition overlapping_generations :: "event list" where
  "overlapping_generations =
     [ClickGenerate, ClickStop, ClickGenerate,
      GenerationSettled 0 (Resolved (Some [0x0043])),
      GenerationSettled 0 (Resolved (Some [0x0044]))]"

definition generating_app :: app where
  "generating_app = idle_app\<lparr> isAutoGenerating := True \<rparr>"

definition stop_pressed_app :: app where
  "stop_pressed_app = idle_app\<lparr> stopSignal := True \<rparr>"

definition sample_closure :: gen_closure where
  "sample_closure = \<lparr> gen_content = sample_story, gen_chapter = 3 \<rparr>"

definition sample_call :: action where
  "sample_call =
     CallWriteNextChapter
       (writeNextChapter_request sample_story [0x0062] 3 (Some [0x0069, 0x002C, 0x006A])
          [0x0067])"

definition written_app :: "js_string \<Rightarrow> app" where
  "written_app t =
     idle_app\<lparr> state := (state idle_app)\<lparr> paragraph_text := sample_story @ PARA_SEP @ t,
                                          currentChapter := 3 \<rparr> \<rparr>"

text \<open>A response without the analysis marker: the outline marker, \<open>b\<close>, the story marker,
  \<open>c\<close>. And a response with the three markers in order, with blanks around the texts
  \<open>A\<close>, \<open>B\<close> and \<open>C\<close>.\<close>

definition response_without_analysis :: js_string where
  "response_without_analysis = MARK_BLUEPRINT @ [0x0062] @ MARK_STORY @ [0x0063]"

definition response_in_order :: js_string where
  "response_in_order =
     [0x0020] @ MARK_ANALYSIS @ [0x0020, 0x0041, 0x000A] @ MARK_BLUEPRINT @ [0x0042, 0x0020] @
     MARK_STORY @ [0x000A, 0x0043, 0x0020]"

text \<open>A chat with one earlier exchange and \<open>hi\<close> typed into the input field; and what the
  user does while the reply is out: types a blank and submits, types \<open>z\<close> and submits.\<close>

definition sample_chat :: chat where
  "sample_chat =
     \<lparr> messages = [\<lparr> role = User, content = [0x0071] \<rparr>,
                   \<lparr> role = Assistant, content = [0x0072] \<rparr>],
       input = [0x0068, 0x0069], isTyping = False \<rparr>"

definition while_waiting :: "chat_event list" where
  "while_waiting = [InputChange [0x0020], Submit, InputChange [0x007A], Submit]"

text \<open>A story with blank lines that are no separators: \<open>A\<close>, blank line, \<open>B\<close>, blank line,
  U+7B2C and U+7AE0 on two lines, blank line, and only then a heading, U+7B2C \<open>2\<close> U+7AE0,
  followed by \<open>C\<close>. The component at rest with this story.\<close>

definition plain_break_story :: js_string where
  "plain_break_story =
     [0x0041, 0x000A, 0x000A, 0x0042, 0x000A, 0x000A, 0x7B2C, 0x000A, 0x7AE0,
      0x000A, 0x000A, 0x7B2C, 0x0032, 0x7AE0, 0x0043]"

definition plain_break_world :: world where
  "plain_break_world =
     idle_world\<lparr> w_app := idle_app\<lparr> state := (state idle_app)
                    \<lparr> paragraph_text := plain_break_story \<rparr> \<rparr> \<rparr>"

text \<open>A response with the story marker twice: analysis marker, \<open>a\<close>, outline marker, \<open>b\<close>,
  story marker, \<open>c\<close>, story marker, \<open>d\<close>. And a response with the three markers present
  but the outline marker in front: outline marker, \<open>x\<close>, analysis marker, \<open>y\<close>, story
  marker, \<open>z\<close>.\<close>

definition response_repeated_story :: js_string where
  "response_repeated_story =
     MARK_ANALYSIS @ [0x0061] @ MARK_BLUEPRINT @ [0x0062] @ MARK_STORY @ [0x0063] @
     MARK_STORY @ [0x0064]"

text \<open>The same with the outline marker twice (analysis marker, \<open>a\<close>, outline marker,
  \<open>b\<close>, outline marker, \<open>c\<close>, story marker, \<open>d\<close>) and with the analysis marker twice
  (analysis marker, \<open>a\<close>, analysis marker, \<open>b\<close>, outline marker, \<open>c\<close>, story marker,
  \<open>d\<close>).\<close>

definition response_repeated_outline :: js_string where
  "response_repeated_outline =
     MARK_ANALYSIS @ [0x0061] @ MARK_BLUEPRINT @ [0x0062] @ MARK_BLUEPRINT @ [0x0063] @
     MARK_STORY @ [0x0064]"

definition response_repeated_analysis :: js_string where
  "response_repeated_analysis =
     MARK_ANALYSIS @ [0x0061] @ MARK_ANALYSIS @ [0x0062] @ MARK_BLUEPRINT @ [0x0063] @
     MARK_STORY @ [0x0064]"

definition response_outline_first :: js_string where
  "response_outline_first =
     MARK_BLUEPRINT @ [0x0078] @ MARK_ANALYSIS @ [0x0079] @ MARK_STORY @ [0x007A]"

text \<open>Three generations, of which the second overlaps the other two: the generate button,
  the stop button while the call is out, the generate button again; the first call
  resolves with the text \<open>C\<close>; the generate button a third time; the third call resolves
  with \<open>E\<close>, and at last the second call with \<open>D\<close>.\<close>

definition lowering_generations :: "event list" where
  "lowering_generations =
     [ClickGenerate, ClickStop, ClickGenerate,
      GenerationSettled 0 (Resolved (Some [0x0043])),
      ClickGenerate,
      GenerationSettled 1 (Resolved (Some [0x0045])),
      GenerationSettled 0 (Resolved (Some [0x0044]))]"

definition later_closure :: gen_closure where
  "later_closure =
     \<lparr> gen_content = sample_story @ PARA_SEP @ [0x0043], gen_chapter = 4 \<rparr>"

definition later_call :: action where
  "later_call =
     CallWriteNextChapter
       (writeNextChapter_request (sample_story @ PARA_SEP @ [0x0043]) [0x0062] 4
          (Some [0x0069, 0x002C, 0x006A]) [0x0067])"

chapter \<open>Properties\<close>

section \<open>Runs and sample states\<close>

lemma run_Nil [simp]: "run [] w = w"
  by (simp add: run_def)

lemma run_Cons [simp]: "run (e # es) w = run es (step e w)"
  by (simp add: run_def)

lemma run_append: "run (xs @ ys) w = run ys (run xs w)"
  by (simp add: run_def)

lemma idle_world_simps:
  "w_app idle_world = idle_app" "w_gens idle_world = []" "w_narrs idle_world = []"
  "w_log idle_world = []"
  by (simp_all add: idle_world_def)

lemma idle_app_simps:
  "state idle_app = \<lparr> image_data = Some [0x0069, 0x002C, 0x006A], analysis = [0x0061],
                 paragraph_text = sample_story, isLoading = False, error = None,
                 blueprint = [0x0062], currentChapter = 2 \<rparr>"
  "currentGuidance idle_app = [0x0067]" "isAutoGenerating idle_app = False"
  "isPlaying idle_app = False" "playingChapterIndex idle_app = None"
  "isEditingBlueprint idle_app = False" "editableBlueprint idle_app = [0x0062]"
  "audioContextRef idle_app = None" "sourceRef idle_app = None"
  "stopSignal idle_app = False" "isReadingRef idle_app = False"
  by (simp_all add: idle_app_def sample_app_def)

lemma truthy_sample_story: "truthy sample_story"
  by (simp add: truthy_def sample_story_def)

lemma world_of_simps [simp]:
  "w_app (world_of a gs ns l) = a" "w_gens (world_of a gs ns l) = gs"
  "w_narrs (world_of a gs ns l) = ns" "w_log (world_of a gs ns l) = l"
  by (simp_all add: world_of_def)

lemma idle_world_of: "idle_world = world_of idle_app [] [] []"
  by (simp add: idle_world_def world_of_def)

section \<open>Chapter generation\<close>

subsection \<open>The chapter counter\<close>

lemma commit_state: "state (w_app (commit w a acts)) = state a"
  by (simp add: commit_def blueprint_effect_def)

lemma commit_gens: "w_gens (commit w a acts) = w_gens w"
  by (simp add: commit_def)

lemma narrate_from_state: "state (fst (narrate_from chs i a)) = state a"
  by (simp add: narrate_from_def narrate_finally_def Let_def)

lemma narration_resume_counter:
  "currentChapter (state (fst (narration_resume n s a))) = currentChapter (state a)"
  by (auto simp: narration_resume_def narrate_from_state narrate_finally_def narrate_catch_def
      split: wait.splits settled.splits outcome.splits option.splits)

lemma handleReadFullStory_state: "state (fst (handleReadFullStory a)) = state a"
  by (simp add: handleReadFullStory_def stopAudio_def narrate_from_state Let_def)

lemma step_counter:
  assumes "gens_agree w" "one_at_a_time [e] w"
  shows "gens_agree (step e w) \<and> counter w \<le> counter (step e w)"
proof (cases e)
  case (Upload x)
  with assms(2) show ?thesis by simp
next
  case (AnalysisSettled r)
  with assms(1) show ?thesis
    by (cases r)
       (simp_all add: step_def handleImageUpload_settled_def gens_agree_def counter_def
        commit_state commit_gens Let_def)
next
  case ClickBlueprintButton
  with assms(1) show ?thesis
    by (simp add: step_def blueprintButton_def handleSaveBlueprint_def gens_agree_def
        counter_def commit_state commit_gens)
next
  case (EditBlueprint t)
  with assms(1) show ?thesis
    by (simp add: step_def gens_agree_def counter_def commit_state commit_gens)
next
  case ClickGenerate
  with assms(2) have e: "w_gens w = []" by simp
  show ?thesis
    using ClickGenerate e
    by (simp add: step_def generateNextPartOfStory_def gens_agree_def counter_def
        commit_state commit_gens Let_def)
next
  case (GenerationSettled j r)
  show ?thesis
  proof (cases "j < length (w_gens w)")
    case False
    with GenerationSettled assms(1) show ?thesis by (simp add: step_def)
  next
    case True
    with assms(1) obtain k where g: "w_gens w = [k]" and j: "j = 0"
      and k: "gen_chapter k = currentChapter (state (w_app w)) + 1"
      by (cases "w_gens w") (auto simp: gens_agree_def)
    show ?thesis
      using GenerationSettled g j k
      by (cases r)
         (simp_all add: step_def generateNextPartOfStory_settled_def gens_agree_def
          counter_def commit_state commit_gens remove_nth_def Let_def)
  qed
next
  case ClickStop
  with assms(1) show ?thesis
    by (simp add: step_def handleStop_def gens_agree_def counter_def commit_state commit_gens)
next
  case ClickRead
  obtain a n acts where h: "handleReadFullStory (w_app w) = (a, n, acts)"
    by (cases "handleReadFullStory (w_app w)")
  with handleReadFullStory_state [of "w_app w"] have "state a = state (w_app w)" by simp
  with ClickRead assms(1) h show ?thesis
    by (simp add: step_def gens_agree_def counter_def commit_state commit_gens)
next
  case (NarrationSettled j s)
  show ?thesis
  proof (cases "j < length (w_narrs w)")
    case False
    with NarrationSettled assms(1) show ?thesis by (simp add: step_def)
  next
    case True
    obtain a n acts where h: "narration_resume (w_narrs w ! j) s (w_app w) = (a, n, acts)"
      by (cases "narration_resume (w_narrs w ! j) s (w_app w)")
    with narration_resume_counter [of "w_narrs w ! j" s "w_app w"]
    have "currentChapter (state a) = currentChapter (state (w_app w))" by simp
    with NarrationSettled assms(1) h True show ?thesis
      by (simp add: step_def gens_agree_def counter_def commit_state commit_gens)
  qed
next
  case DismissError
  with assms(1) show ?thesis
    by (simp add: step_def dismissError_def gens_agree_def counter_def commit_state commit_gens)
next
  case (AssistantReply t)
  with assms(1) show ?thesis
    by (simp add: step_def gens_agree_def counter_def commit_state commit_gens)
qed


lemma run_counter:
  "gens_agree w \<Longrightarrow> one_at_a_time es w \<Longrightarrow>
   gens_agree (run es w) \<and> counter w \<le> counter (run es w)"
proof (induction es arbitrary: w)
  case Nil
  then show ?case by simp
next
  case (Cons e es)
  from Cons.prems have 1: "one_at_a_time [e] w" and 2: "one_at_a_time es (step e w)"
    by simp_all
  from step_counter [OF Cons.prems(1) 1]
  have 3: "gens_agree (step e w)" and 4: "counter w \<le> counter (step e w)" by simp_all
  from Cons.IH [OF 3 2] 4 show ?case by simp
qed

lemma one_at_a_time_append:
  "one_at_a_time (xs @ ys) w = (one_at_a_time xs w \<and> one_at_a_time ys (run xs w))"
  by (induction xs arbitrary: w) simp_all

lemma gens_agree_empty: "w_gens w = [] \<Longrightarrow> gens_agree w"
  by (simp add: gens_agree_def)

lemma settle_adds_one:
  assumes "gens_agree w" "j < length (w_gens w)"
  shows "counter (step (GenerationSettled j (Resolved rt)) w) = counter w + 1"
proof -
  from assms obtain k where g: "w_gens w = [k]" and j: "j = 0"
    and k: "gen_chapter k = currentChapter (state (w_app w)) + 1"
    by (cases "w_gens w") (auto simp: gens_agree_def)
  then show ?thesis
    by (simp add: step_def generateNextPartOfStory_settled_def counter_def commit_state Let_def)
qed


text \<open>The sample component, step by step.\<close>

lemmas gen_eval =
  step_def generateNextPartOfStory_def generateNextPartOfStory_settled_def handleStop_def
  commit_def blueprint_effect_def remove_nth_def Let_def or_default_def truthy_def
  writeNextChapter_result_def world_of_def generating_app_def stop_pressed_app_def
  sample_closure_def sample_call_def written_app_def idle_app_simps

lemma generate_clicked:
  "step ClickGenerate (world_of idle_app gs ns l) =
   world_of generating_app (gs @ [sample_closure]) ns (l @ [sample_call])"
  by (simp add: gen_eval)

lemma stop_clicked:
  "step ClickStop (world_of generating_app gs ns l) = world_of stop_pressed_app gs ns l"
  by (simp add: gen_eval)

lemma generate_clicked_again:
  "step ClickGenerate (world_of stop_pressed_app gs ns l) =
   world_of generating_app (gs @ [sample_closure]) ns (l @ [sample_call])"
  by (simp add: gen_eval)

lemma generation_resolves:
  "step (GenerationSettled 0 (Resolved (Some (c # t)))) (world_of a (sample_closure # gs) ns l) =
   world_of (a\<lparr> state := (state a)\<lparr> paragraph_text := sample_story @ PARA_SEP @ c # t,
                                      currentChapter := 3 \<rparr>,
                isAutoGenerating := False \<rparr>) gs ns l"
  by (simp add: gen_eval)

lemma generate_enabled:
  "enabled ClickGenerate (world_of idle_app gs ns l)"
  "enabled ClickGenerate (world_of stop_pressed_app gs ns l)"
  "enabled ClickStop (world_of generating_app gs ns l)"
  "enabled (GenerationSettled 0 r) (world_of a (k # gs) ns l)"
  by (simp_all add: enabled_def console_shown_def generating_app_def stop_pressed_app_def
      idle_app_simps truthy_def sample_story_def)

lemma not_generating_same: "\<not> isAutoGenerating a \<Longrightarrow> a\<lparr> isAutoGenerating := False \<rparr> = a"
  by (cases a) simp

lemma written_app_simps:
  "state (written_app t) =
     \<lparr> image_data = Some [0x0069, 0x002C, 0x006A], analysis = [0x0061],
       paragraph_text = sample_story @ PARA_SEP @ t, isLoading = False, error = None,
       blueprint = [0x0062], currentChapter = 3 \<rparr>"
  "currentGuidance (written_app t) = [0x0067]" "isAutoGenerating (written_app t) = False"
  by (simp_all add: written_app_def idle_app_simps)

lemma first_generation_resolves:
  "step (GenerationSettled 0 (Resolved (Some [0x0043])))
     (world_of generating_app (sample_closure # gs) ns l) =
   world_of (written_app [0x0043]) gs ns l"
  by (simp add: gen_eval not_generating_same idle_app_simps)

lemma generate_clicked_later:
  "step ClickGenerate (world_of (written_app [0x0043]) gs ns l) =
   world_of ((written_app [0x0043])\<lparr> isAutoGenerating := True \<rparr>)
     (gs @ [later_closure]) ns (l @ [later_call])"
  by (simp add: step_def generateNextPartOfStory_def commit_def blueprint_effect_def Let_def
      or_default_def truthy_def world_of_def written_app_def later_closure_def later_call_def
      idle_app_simps)

lemma later_generation_resolves:
  "step (GenerationSettled (Suc 0) (Resolved (Some [0x0045])))
     (world_of a [k, later_closure] ns l) =
   world_of (a\<lparr> state := (state a)\<lparr> paragraph_text :=
                     (sample_story @ PARA_SEP @ [0x0043]) @ PARA_SEP @ [0x0045],
                   currentChapter := 4 \<rparr>,
                isAutoGenerating := False \<rparr>) [k] ns l"
  by (simp add: step_def generateNextPartOfStory_settled_def commit_def blueprint_effect_def
      remove_nth_def Let_def or_default_def truthy_def writeNextChapter_result_def world_of_def
      later_closure_def)

lemma generate_enabled_later:
  "enabled ClickGenerate (world_of (written_app [0x0043]) gs ns l)"
  "enabled (GenerationSettled (Suc 0) r) (world_of a [k, k'] ns l)"
  by (simp_all add: enabled_def console_shown_def written_app_simps truthy_def sample_story_def)

text \<open>
  Claim C1 (a successful generation leaves the counter one higher; within one story the
  counter never decreases) at three generations, of which the second overlaps the other
  two. The stop button lowers \<open>isAutoGenerating\<close> while the call is still out, and so does
  the \<open>finally\<close> block of the first call while the second is still out, so the button can
  be clicked again each time. The second call holds the chapter number 3 from the moment
  it was started; when it resolves last, after the third call has raised the counter to 4,
  it sets the counter back to 3. No image is uploaded, and every event of the run is one
  that the rendered page allows. The defect is the one of claim C2.
\<close>

theorem overlapping_generations_lower_counter:
  "lowering_generations =
     [ClickGenerate, ClickStop, ClickGenerate,
      GenerationSettled 0 (Resolved (Some [0x0043])),
      ClickGenerate,
      GenerationSettled 1 (Resolved (Some [0x0045])),
      GenerationSettled 0 (Resolved (Some [0x0044]))]
   \<and> feasible lowering_generations idle_world
   \<and> map (\<lambda>n. counter (run (take n lowering_generations) idle_world)) [0, 1, 2, 3, 4, 5, 6, 7]
       = [2, 2, 2, 2, 3, 3, 4, 3]
   \<and> counter (run (take 6 lowering_generations) idle_world) = 4
   \<and> counter (run lowering_generations idle_world) = 3"
proof -
  let ?a5 = "(written_app [0x0043])\<lparr> isAutoGenerating := True \<rparr>"
  let ?a6 = "?a5\<lparr> state := (state ?a5)\<lparr> paragraph_text :=
                     (sample_story @ PARA_SEP @ [0x0043]) @ PARA_SEP @ [0x0045],
                   currentChapter := 4 \<rparr>,
                isAutoGenerating := False \<rparr>"
  let ?a7 = "?a6\<lparr> state := (state ?a6)\<lparr> paragraph_text := sample_story @ PARA_SEP @ [0x0044],
                   currentChapter := 3 \<rparr>,
                isAutoGenerating := False \<rparr>"
  have e: "lowering_generations =
     [ClickGenerate, ClickStop, ClickGenerate,
      GenerationSettled 0 (Resolved (Some [0x0043])),
      ClickGenerate,
      GenerationSettled 1 (Resolved (Some [0x0045])),
      GenerationSettled 0 (Resolved (Some [0x0044]))]"
    by (simp add: lowering_generations_def)
  have r0: "run (take 0 lowering_generations) idle_world = idle_world"
    by simp
  have t1: "take 1 lowering_generations = take 0 lowering_generations @ [ClickGenerate]"
    and t2: "take 2 lowering_generations = take 1 lowering_generations @ [ClickStop]"
    and t3: "take 3 lowering_generations = take 2 lowering_generations @ [ClickGenerate]"
    and t4: "take 4 lowering_generations = take 3 lowering_generations
               @ [GenerationSettled 0 (Resolved (Some [0x0043]))]"
    and t5: "take 5 lowering_generations = take 4 lowering_generations @ [ClickGenerate]"
    and t6: "take 6 lowering_generations = take 5 lowering_generations
               @ [GenerationSettled (Suc 0) (Resolved (Some [0x0045]))]"
    and t7: "take 7 lowering_generations = take 6 lowering_generations
               @ [GenerationSettled 0 (Resolved (Some [0x0044]))]"
    by (simp_all add: e)
  have r1: "run (take 1 lowering_generations) idle_world =
            world_of generating_app [sample_closure] [] [sample_call]"
    unfolding t1 run_append r0 by (simp add: idle_world_of generate_clicked)
  have r2: "run (take 2 lowering_generations) idle_world =
            world_of stop_pressed_app [sample_closure] [] [sample_call]"
    unfolding t2 run_append r1 by (simp add: stop_clicked)
  have r3: "run (take 3 lowering_generations) idle_world =
            world_of generating_app [sample_closure, sample_closure] [] [sample_call, sample_call]"
    unfolding t3 run_append r2 by (simp add: generate_clicked_again)
  have r4: "run (take 4 lowering_generations) idle_world =
            world_of (written_app [0x0043]) [sample_closure] [] [sample_call, sample_call]"
    unfolding t4 run_append r3 by (simp add: first_generation_resolves)
  have r5: "run (take 5 lowering_generations) idle_world =
            world_of ?a5 [sample_closure, later_closure] []
              [sample_call, sample_call, later_call]"
    unfolding t5 run_append r4 by (simp add: generate_clicked_later)
  have r6: "run (take 6 lowering_generations) idle_world =
            world_of ?a6 [sample_closure] [] [sample_call, sample_call, later_call]"
    unfolding t6 run_append r5 by (simp add: later_generation_resolves)
  have r7: "run (take 7 lowering_generations) idle_world =
            world_of ?a7 [] [] [sample_call, sample_call, later_call]"
    unfolding t7 run_append r6 by (simp add: generation_resolves)
  have f: "feasible lowering_generations idle_world"
    by (simp add: e idle_world_of generate_clicked stop_clicked generate_clicked_again
        first_generation_resolves generate_clicked_later later_generation_resolves
        generate_enabled generate_enabled_later)
  have c: "counter idle_world = 2" "counter (world_of generating_app gs ns l) = 2"
    "counter (world_of stop_pressed_app gs ns l) = 2"
    "counter (world_of (written_app [0x0043]) gs ns l) = 3"
    "counter (world_of ?a5 gs ns l) = 3" "counter (world_of ?a6 gs ns l) = 4"
    "counter (world_of ?a7 gs ns l) = 3" for gs ns l
    by (simp_all add: counter_def idle_world_simps idle_app_simps generating_app_def
        stop_pressed_app_def written_app_simps)
  have m: "map (\<lambda>n. counter (run (take n lowering_generations) idle_world))
             [0, 1, 2, 3, 4, 5, 6, 7] = [2, 2, 2, 2, 3, 3, 4, 3]"
    by (simp only: list.map r0 r1 r2 r3 r4 r5 r6 r7 c)
  have c6: "counter (run (take 6 lowering_generations) idle_world) = 4"
    by (simp only: r6 c)
  have "take 7 lowering_generations = lowering_generations"
    by (simp add: e)
  with r7 have c7: "counter (run lowering_generations idle_world) = 3"
    by (simp only: c)
  from e f m c6 c7 show ?thesis by blast
qed

text \<open>
  What holds of the counter: a call that passes the guard leaves, when it succeeds, the
  counter of the moment of the call plus one, whatever state it finds. In a stretch of one
  story in which the button is only clicked when no call is out, the counter never
  decreases, and every generation that succeeds raises it by exactly one.
\<close>

lemma chapter_counter_one_at_a_time:
  "(truthy (blueprint (state a)) \<and> \<not> isAutoGenerating a \<longrightarrow>
      (\<exists>a1 k acts. generateNextPartOfStory a = Some (a1, k, acts)
         \<and> currentChapter (state (fst (generateNextPartOfStory_settled k (Resolved rt) prev)))
             = currentChapter (state a) + 1))
   \<and> (w_gens w = [] \<and> one_at_a_time (es1 @ es2) w \<longrightarrow>
        counter (run es1 w) \<le> counter (run (es1 @ es2) w))
   \<and> (w_gens w = [] \<and> one_at_a_time es1 w \<and> j < length (w_gens (run es1 w)) \<longrightarrow>
        counter (run (es1 @ [GenerationSettled j (Resolved rt)]) w) = counter (run es1 w) + 1)"
proof (intro conjI impI)
  assume "truthy (blueprint (state a)) \<and> \<not> isAutoGenerating a"
  then show "\<exists>a1 k acts. generateNextPartOfStory a = Some (a1, k, acts)
         \<and> currentChapter (state (fst (generateNextPartOfStory_settled k (Resolved rt) prev)))
             = currentChapter (state a) + 1"
    by (simp add: generateNextPartOfStory_def generateNextPartOfStory_settled_def Let_def)
next
  assume h: "w_gens w = [] \<and> one_at_a_time (es1 @ es2) w"
  then have 1: "one_at_a_time es1 w" and 2: "one_at_a_time es2 (run es1 w)"
    by (simp_all add: one_at_a_time_append)
  from h have "gens_agree w" by (simp add: gens_agree_empty)
  from run_counter [OF this 1] have "gens_agree (run es1 w)" by simp
  from run_counter [OF this 2] show "counter (run es1 w) \<le> counter (run (es1 @ es2) w)"
    by (simp add: run_append)
next
  assume h: "w_gens w = [] \<and> one_at_a_time es1 w \<and> j < length (w_gens (run es1 w))"
  then have "gens_agree w" by (simp add: gens_agree_empty)
  with h run_counter [of w es1] have "gens_agree (run es1 w)" by simp
  from settle_adds_one [OF this] h
  show "counter (run (es1 @ [GenerationSettled j (Resolved rt)]) w) = counter (run es1 w) + 1"
    by (simp add: run_def)
qed

subsection \<open>The story text\<close>

lemma narration_resume_text:
  "paragraph_text (state (fst (narration_resume n s a))) = paragraph_text (state a)"
  by (auto simp: narration_resume_def narrate_from_state narrate_finally_def narrate_catch_def
      split: wait.splits settled.splits outcome.splits option.splits)

lemma step_story:
  assumes "story_agree w" "one_at_a_time [e] w" "\<not> is_analysis e"
  shows "story_agree (step e w) \<and> prefix (story w) (story (step e w))"
proof (cases e)
  case (Upload x)
  with assms(2) show ?thesis by simp
next
  case (AnalysisSettled r)
  with assms(3) show ?thesis by (simp add: is_analysis_def)
next
  case ClickBlueprintButton
  with assms(1) show ?thesis
    by (simp add: step_def blueprintButton_def handleSaveBlueprint_def story_agree_def
        story_def commit_state commit_gens)
next
  case (EditBlueprint t)
  with assms(1) show ?thesis
    by (simp add: step_def story_agree_def story_def commit_state commit_gens)
next
  case ClickGenerate
  with assms(2) have e: "w_gens w = []" by simp
  show ?thesis
    using ClickGenerate e
    by (simp add: step_def generateNextPartOfStory_def story_agree_def story_def
        commit_state commit_gens Let_def)
next
  case (GenerationSettled j r)
  show ?thesis
  proof (cases "j < length (w_gens w)")
    case False
    with GenerationSettled assms(1) show ?thesis by (simp add: step_def)
  next
    case True
    with assms(1) obtain k where g: "w_gens w = [k]" and j: "j = 0"
      and k: "gen_content k = paragraph_text (state (w_app w))"
      by (cases "w_gens w") (auto simp: story_agree_def story_def)
    show ?thesis
      using GenerationSettled g j k
      by (cases r)
         (simp_all add: step_def generateNextPartOfStory_settled_def story_agree_def
          story_def commit_state commit_gens remove_nth_def Let_def)
  qed
next
  case ClickStop
  with assms(1) show ?thesis
    by (simp add: step_def handleStop_def story_agree_def story_def commit_state commit_gens)
next
  case ClickRead
  obtain a n acts where h: "handleReadFullStory (w_app w) = (a, n, acts)"
    by (cases "handleReadFullStory (w_app w)")
  with handleReadFullStory_state [of "w_app w"] have "state a = state (w_app w)" by simp
  with ClickRead assms(1) h show ?thesis
    by (simp add: step_def story_agree_def story_def commit_state commit_gens)
next
  case (NarrationSettled j s)
  show ?thesis
  proof (cases "j < length (w_narrs w)")
    case False
    with NarrationSettled assms(1) show ?thesis by (simp add: step_def)
  next
    case True
    obtain a n acts where h: "narration_resume (w_narrs w ! j) s (w_app w) = (a, n, acts)"
      by (cases "narration_resume (w_narrs w ! j) s (w_app w)")
    with narration_resume_text [of "w_narrs w ! j" s "w_app w"]
    have "paragraph_text (state a) = paragraph_text (state (w_app w))" by simp
    with NarrationSettled assms(1) h True show ?thesis
      by (simp add: step_def story_agree_def story_def commit_state commit_gens)
  qed
next
  case DismissError
  with assms(1) show ?thesis
    by (simp add: step_def dismissError_def story_agree_def story_def commit_state commit_gens)
next
  case (AssistantReply t)
  with assms(1) show ?thesis
    by (simp add: step_def story_agree_def story_def commit_state commit_gens)
qed

lemma run_story:
  "story_agree w \<Longrightarrow> one_at_a_time es w \<Longrightarrow> list_all (\<lambda>e. \<not> is_analysis e) es \<Longrightarrow>
   story_agree (run es w) \<and> prefix (story w) (story (run es w))"
proof (induction es arbitrary: w)
  case Nil
  then show ?case by simp
next
  case (Cons e es)
  from Cons.prems have 1: "one_at_a_time [e] w" and 2: "one_at_a_time es (step e w)"
    and 3: "\<not> is_analysis e" and 4: "list_all (\<lambda>e. \<not> is_analysis e) es"
    by simp_all
  from step_story [OF Cons.prems(1) 1 3]
  have 5: "story_agree (step e w)" and 6: "prefix (story w) (story (step e w))" by simp_all
  from Cons.IH [OF 5 2 4] 6 show ?case
    by (auto intro: prefix_order.trans)
qed

text \<open>Where the generations do not overlap, the story only grows at its end: apart from
  an image upload and the settling of its analysis, whatever happens leaves the earlier
  story a prefix of the later one.\<close>

lemma story_append_only_one_at_a_time:
  assumes "w_gens w = []" "one_at_a_time (es1 @ es2) w"
      and "list_all (\<lambda>e. \<not> is_analysis e) (es1 @ es2)"
  shows "prefix (story (run es1 w)) (story (run (es1 @ es2) w))"
proof -
  from assms(2) have 1: "one_at_a_time es1 w" and 2: "one_at_a_time es2 (run es1 w)"
    by (simp_all add: one_at_a_time_append)
  from assms(1) have "story_agree w" by (simp add: story_agree_def)
  from run_story [OF this 1] assms(3) have "story_agree (run es1 w)" by simp
  from run_story [OF this 2] assms(3) show ?thesis
    by (simp add: run_append)
qed

text \<open>A generation that succeeds writes the story of the moment it was called, a blank
  line and the new chapter, whatever the state it finds.\<close>

lemma generation_appends_to_captured:
  assumes "generateNextPartOfStory a = Some (a1, k, acts)"
  shows "paragraph_text (state (fst (generateNextPartOfStory_settled k (Resolved rt) prev)))
         = paragraph_text (state a) @ PARA_SEP @ writeNextChapter_result rt"
  using assms
  by (auto simp: generateNextPartOfStory_def generateNextPartOfStory_settled_def Let_def
      split: if_splits)

text \<open>
  Claim C2 (the story text only grows at its end; nothing but an image upload shortens
  or rewrites it) at two overlapping generations. The stop button lowers \<open>isAutoGenerating\<close>
  while the call is still out (\<open>stopSignal\<close> is written and never read), so the button can be
  clicked again: both calls hold the same story and the same chapter number. When the
  first resolves the story ends with its chapter \<open>C\<close>; when the second resolves, the
  story is the old story with the chapter \<open>D\<close>, the chapter \<open>C\<close> is gone, and the counter
  is 3 as before. Every event of the run is one that the rendered page allows.
\<close>

theorem overlapping_generations_rewrite_story:
  "feasible overlapping_generations idle_world
   \<and> run (take 3 overlapping_generations) idle_world =
       world_of generating_app [sample_closure, sample_closure] [] [sample_call, sample_call]
   \<and> run (take 4 overlapping_generations) idle_world =
       world_of (written_app [0x0043]) [sample_closure] [] [sample_call, sample_call]
   \<and> run overlapping_generations idle_world =
       world_of (written_app [0x0044]) [] [] [sample_call, sample_call]
   \<and> story (run (take 4 overlapping_generations) idle_world) = sample_story @ PARA_SEP @ [0x0043]
   \<and> story (run overlapping_generations idle_world) = sample_story @ PARA_SEP @ [0x0044]
   \<and> \<not> prefix (story (run (take 4 overlapping_generations) idle_world))
               (story (run overlapping_generations idle_world))
   \<and> counter (run (take 4 overlapping_generations) idle_world) = 3
   \<and> counter (run overlapping_generations idle_world) = 3"
proof -
  have w4: "generating_app\<lparr> state := (state generating_app)
               \<lparr> paragraph_text := sample_story @ PARA_SEP @ [c], currentChapter := 3 \<rparr>,
             isAutoGenerating := False \<rparr> = written_app [c]" for c
    by (simp add: generating_app_def written_app_def not_generating_same idle_app_simps)
  have w5: "(written_app [c])\<lparr> state := (state (written_app [c]))
               \<lparr> paragraph_text := sample_story @ PARA_SEP @ [d], currentChapter := 3 \<rparr>,
             isAutoGenerating := False \<rparr> = written_app [d]" for c d
    by (simp add: written_app_def not_generating_same idle_app_simps)
  have f: "feasible overlapping_generations idle_world"
    by (simp add: overlapping_generations_def idle_world_of generate_clicked stop_clicked
        generate_clicked_again generation_resolves generate_enabled)
  have r3: "run (take 3 overlapping_generations) idle_world =
       world_of generating_app [sample_closure, sample_closure] [] [sample_call, sample_call]"
    by (simp add: overlapping_generations_def idle_world_of generate_clicked stop_clicked
        generate_clicked_again)
  have r4: "run (take 4 overlapping_generations) idle_world =
       world_of (written_app [0x0043]) [sample_closure] [] [sample_call, sample_call]"
    by (simp add: overlapping_generations_def idle_world_of generate_clicked stop_clicked
        generate_clicked_again generation_resolves w4)
  have r5: "run overlapping_generations idle_world =
       world_of (written_app [0x0044]) [] [] [sample_call, sample_call]"
    by (simp add: overlapping_generations_def idle_world_of generate_clicked stop_clicked
        generate_clicked_again generation_resolves w4 w5)
  have s4: "story (run (take 4 overlapping_generations) idle_world)
            = sample_story @ PARA_SEP @ [0x0043]"
    by (simp add: r4 story_def written_app_def)
  have s5: "story (run overlapping_generations idle_world) = sample_story @ PARA_SEP @ [0x0044]"
    by (simp add: r5 story_def written_app_def)
  have np: "\<not> prefix (story (run (take 4 overlapping_generations) idle_world))
               (story (run overlapping_generations idle_world))"
    unfolding s4 s5 by simp
  have c4: "counter (run (take 4 overlapping_generations) idle_world) = 3"
    by (simp add: r4 counter_def written_app_def)
  have c5: "counter (run overlapping_generations idle_world) = 3"
    by (simp add: r5 counter_def written_app_def)
  from f r3 r4 r5 s4 s5 np c4 c5 show ?thesis by blast
qed
section \<open>Failures of the remote calls\<close>

text \<open>
  Claim C3. When the image analysis, the chapter continuation or the speech synthesis
  rejects, the rest of the handler only writes a fixed message into the error slot (and
  lowers the flag of the operation): story text, blueprint and chapter counter stay as the
  failure finds them, no remote call is started again, and the suspended call is gone.
\<close>

theorem remote_failure_sets_error_only:
  "handleImageUpload_settled Rejected a =
     (a\<lparr> state := (state a)\<lparr> isLoading := False, error := Some ERR_ANALYZE \<rparr> \<rparr>, [])
   \<and> generateNextPartOfStory_settled k Rejected a =
     (a\<lparr> state := (state a)\<lparr> error := Some ERR_GENERATE \<rparr>, isAutoGenerating := False \<rparr>, [])
   \<and> (waiting n = AwaitSpeech \<longrightarrow>
        narration_resume n (SpeechSettled Rejected) a =
          ((if isReadingRef a
            then a\<lparr> state := (state a)\<lparr> error := Some ERR_NARRATE \<rparr>, isPlaying := False,
                    playingChapterIndex := None, isReadingRef := False \<rparr>
            else a\<lparr> state := (state a)\<lparr> error := Some ERR_NARRATE \<rparr> \<rparr>),
           None, [ConsoleError]))
   \<and> (\<forall>a' \<in> {fst (handleImageUpload_settled Rejected a),
               fst (generateNextPartOfStory_settled k Rejected a),
               fst (narrate_catch a)}.
        paragraph_text (state a') = paragraph_text (state a) \<and>
        blueprint (state a') = blueprint (state a) \<and>
        currentChapter (state a') = currentChapter (state a) \<and>
        error (state a') \<in> {Some ERR_ANALYZE, Some ERR_GENERATE, Some ERR_NARRATE})"
  by (auto simp: handleImageUpload_settled_def generateNextPartOfStory_settled_def
      narration_resume_def narrate_catch_def narrate_finally_def)

text \<open>The synthesis of the second chapter fails while the sample component narrates.\<close>

theorem remote_failure_sets_error_only_witness:
  "waiting sample_narration = AwaitSpeech
   \<and> narration_resume sample_narration (SpeechSettled Rejected) sample_app =
       (sample_app\<lparr> state := (state sample_app)\<lparr> error := Some ERR_NARRATE \<rparr>,
          isPlaying := False, playingChapterIndex := None, isReadingRef := False \<rparr>,
        None, [ConsoleError])
   \<and> paragraph_text (state (fst (narrate_catch sample_app))) = sample_story
   \<and> currentChapter (state (fst (narrate_catch sample_app))) = 2"
proof -
  have w: "waiting sample_narration = AwaitSpeech"
    by (simp add: sample_narration_def)
  have r: "isReadingRef sample_app"
    by (simp add: sample_app_def)
  from remote_failure_sets_error_only [of sample_app k sample_narration] w r
  show ?thesis
    by (simp add: sample_app_def)
qed

section \<open>Image upload\<close>

text \<open>
  Claim C4. A new image clears the story before the analysis call is made: when \<open>onload\<close>
  reaches its \<open>await\<close>, the analysis, the blueprint and the story text are empty, the
  chapter counter is 1, the error slot and the pending guidance are cleared, the narration
  is stopped (the flags are down and the source node held in \<open>sourceRef\<close> has been told
  to stop), the new image is in place, and only then the call to \<open>analyzeAndPlan\<close> goes out.
\<close>

theorem handleImageUpload_clears_story:
  assumes "handleImageUpload_onload base64 a = (a', acts)"
  shows "state a' = \<lparr> image_data = Some base64, analysis = [], paragraph_text = [],
                      isLoading = True, error = None, blueprint = [], currentChapter = 1 \<rparr>
         \<and> currentGuidance a' = []
         \<and> isPlaying a' = False \<and> isReadingRef a' = False
         \<and> sourceRef a' = None \<and> playingChapterIndex a' = None
         \<and> acts = (case sourceRef a of None \<Rightarrow> [] | Some n \<Rightarrow> [SourceStop n])
                  @ [CallAnalyzeAndPlan base64]"
  using assms
  by (auto simp: handleImageUpload_onload_def stopAudio_def Let_def)

theorem handleImageUpload_clears_story_witness:
  "handleImageUpload_onload [0x006B] sample_app =
     (sample_app\<lparr> state := \<lparr> image_data = Some [0x006B], analysis = [], paragraph_text = [],
                      isLoading = True, error = None, blueprint = [], currentChapter = 1 \<rparr>,
        currentGuidance := [], isPlaying := False, isReadingRef := False, sourceRef := None,
        playingChapterIndex := None \<rparr>,
      [SourceStop 0, CallAnalyzeAndPlan [0x006B]])"
proof -
  obtain a' acts where h: "handleImageUpload_onload [0x006B] sample_app = (a', acts)"
    by (cases "handleImageUpload_onload [0x006B] sample_app")
  from handleImageUpload_clears_story [OF h] h
  show ?thesis
    by (simp add: handleImageUpload_onload_def stopAudio_def sample_app_def)
qed

section \<open>Narration\<close>

lemma split_go_nonempty: "split_go acc s \<noteq> []"
  by (induction acc s rule: split_go.induct) auto

lemma voice_of_even: "voice_of i = (if even i then VOICE_KORE else VOICE_PUCK)"
  by (simp add: voice_of_def even_iff_mod_2_eq_zero)

lemma narrate_inner_chapter:
  assumes "w_narrs w = [\<lparr> chapters = chs, idx = i, waiting = AwaitSpeech \<rparr>]"
      and "isReadingRef (w_app w)"
      and "audioContextRef (w_app w) = Some c"
      and "i < length chs - 1"
  shows "run (map (NarrationSettled 0) (chapter_script (length chs) i x)) w =
         w\<lparr> w_app := (w_app w)\<lparr> audioContextRef := Some (c + 1), sourceRef := Some c,
                        playingChapterIndex := Some (i + 2) \<rparr>,
            w_narrs := [\<lparr> chapters = chs, idx = i + 1, waiting = AwaitSpeech \<rparr>],
            w_log := w_log w @ [CallDecodeAudio x, SourceStart c, SetTimeout 800,
                                speech_of chs (i + 1)] \<rparr>"
  using assms
  by (simp add: chapter_script_def step_def narration_resume_def commit_def
      blueprint_effect_def narrate_from_def Let_def voice_of_even speech_of_def)

lemma narrate_last_chapter:
  assumes "w_narrs w = [\<lparr> chapters = chs, idx = i, waiting = AwaitSpeech \<rparr>]"
      and "isReadingRef (w_app w)"
      and "audioContextRef (w_app w) = Some c"
      and "i = length chs - 1"
  shows "run (map (NarrationSettled 0) (chapter_script (length chs) i x)) w =
         w\<lparr> w_app := (w_app w)\<lparr> audioContextRef := Some (c + 1), sourceRef := Some c,
                        isPlaying := False, playingChapterIndex := None,
                        isReadingRef := False \<rparr>,
            w_narrs := [],
            w_log := w_log w @ [CallDecodeAudio x, SourceStart c] \<rparr>"
  using assms
  by (simp add: chapter_script_def step_def narration_resume_def commit_def
      blueprint_effect_def narrate_from_def narrate_finally_def remove_nth_def)

subsection \<open>The chapters of a story\<close>

lemma join_Cons: "ys \<noteq> [] \<Longrightarrow> join sep (x # ys) = x @ sep @ join sep ys"
  by (cases ys) simp_all

lemma separator_hereD:
  "separator_here s \<Longrightarrow> \<exists>rest. s = PARA_SEP @ rest \<and> heading_ahead rest"
  by (auto simp: separator_here_def PARA_SEP_def split: list.splits)

lemma join_split_go: "join PARA_SEP (split_go acc s) = rev acc @ s"
proof (induction acc s rule: split_go.induct)
  case (3 acc c d rest)
  show ?case
  proof (cases "separator_here (c # d # rest)")
    case True
    then have cd: "c = 0x000A" "d = 0x000A"
      by (simp_all add: separator_here_def)
    from True 3(1) show ?thesis
      by (simp add: join_Cons split_go_nonempty PARA_SEP_def cd)
  next
    case False
    with 3 show ?thesis by simp
  qed
qed simp_all

lemma separator_here_short: "length x < 2 \<Longrightarrow> \<not> separator_here x"
  by (cases x; cases "tl x") (auto simp: separator_here_def)

lemma dot_star_then_cut:
  "is_line_terminator x \<Longrightarrow> x \<noteq> c \<Longrightarrow> dot_star_then c (ys @ x # zs) = dot_star_then c ys"
  by (induction ys) auto

lemma heading_ahead_cut: "heading_ahead (r @ 0x000A # t) = heading_ahead r"
proof (cases r)
  case Nil
  then show ?thesis by (simp add: heading_ahead_def)
next
  case (Cons a ys)
  have "dot_star_then 0x7AE0 (ys @ 0x000A # t) = dot_star_then 0x7AE0 ys"
    by (rule dot_star_then_cut) (simp_all add: is_line_terminator_def)
  with Cons show ?thesis by (simp add: heading_ahead_def)
qed

lemma separator_here_cut:
  "separator_here (x @ 0x000A # t) \<Longrightarrow> 2 \<le> length x \<Longrightarrow> separator_here x"
proof -
  assume a: "separator_here (x @ 0x000A # t)" and l: "2 \<le> length x"
  from l obtain c d r where x: "x = c # d # r"
    by (cases x; cases "tl x") auto
  from a show ?thesis
    unfolding x by (simp add: separator_here_def heading_ahead_cut)
qed

lemma separator_here_ext:
  "separator_here x \<Longrightarrow> separator_here (x @ 0x000A # t)"
proof -
  assume a: "separator_here x"
  then obtain c d r where x: "x = c # d # r"
    by (auto simp: separator_here_def split: list.splits)
  from a show ?thesis
    unfolding x by (simp add: separator_here_def heading_ahead_cut)
qed

lemma hd_split_go_heading:
  "heading_ahead (rev acc @ s) \<Longrightarrow> heading_ahead (hd (split_go acc s))"
proof (induction acc s rule: split_go.induct)
  case (3 acc c d rest)
  show ?case
  proof (cases "separator_here (c # d # rest)")
    case True
    then have c: "c = 0x000A" by (simp add: separator_here_def)
    from 3(3) have "heading_ahead (rev acc)"
      unfolding c by (simp add: heading_ahead_cut)
    with True show ?thesis by simp
  next
    case False
    with 3 show ?thesis by simp
  qed
qed simp_all

lemma tl_split_go_heading:
  "p \<in> set (tl (split_go acc s)) \<Longrightarrow> heading_ahead p"
proof (induction acc s arbitrary: p rule: split_go.induct)
  case (3 acc c d rest)
  show ?case
  proof (cases "separator_here (c # d # rest)")
    case True
    then have h: "heading_ahead rest" by (simp add: separator_here_def)
    from True 3(3) have "p \<in> set (split_go [] rest)" by simp
    then have "p = hd (split_go [] rest) \<or> p \<in> set (tl (split_go [] rest))"
      by (cases "split_go [] rest") auto
    then show ?thesis
    proof
      assume "p = hd (split_go [] rest)"
      with h hd_split_go_heading [of "[]" rest] show ?thesis by simp
    next
      assume "p \<in> set (tl (split_go [] rest))"
      with True 3(1) show ?thesis by simp
    qed
  next
    case False
    with 3 show ?thesis by simp
  qed
qed simp_all

lemma split_go_no_separator:
  assumes "\<forall>k < length acc. \<not> separator_here (drop k (rev acc @ s))"
      and "p \<in> set (split_go acc s)"
  shows "\<not> separator_here (drop k p)"
  using assms
proof (induction acc s arbitrary: p k rule: split_go.induct)
  case (1 acc)
  then have p: "p = rev acc" by simp
  show ?case
  proof (cases "k < length acc")
    case True
    with 1(1) show ?thesis by (simp add: p)
  next
    case False
    then show ?thesis by (simp add: p separator_here_short)
  qed
next
  case (2 acc c)
  then have p: "p = rev acc @ [c]" by simp
  show ?case
  proof (cases "k < length acc")
    case True
    with 2(1) show ?thesis by (simp add: p)
  next
    case False
    then show ?thesis by (simp add: p separator_here_short)
  qed
next
  case (3 acc c d rest)
  show ?case
  proof (cases "separator_here (c # d # rest)")
    case True
    then have c: "c = 0x000A" by (simp add: separator_here_def)
    from True 3(4) have "p = rev acc \<or> p \<in> set (split_go [] rest)" by simp
    then show ?thesis
    proof
      assume p: "p = rev acc"
      show ?thesis
      proof (cases "k < length acc")
        case k: True
        from 3(3) k have n: "\<not> separator_here (drop k (rev acc) @ 0x000A # d # rest)"
          by (simp add: c)
        show ?thesis
        proof
          assume "separator_here (drop k p)"
          then have "separator_here (drop k (rev acc) @ 0x000A # d # rest)"
            unfolding p by (rule separator_here_ext)
          with n show False by simp
        qed
      next
        case False
        then show ?thesis by (simp add: p separator_here_short)
      qed
    next
      assume "p \<in> set (split_go [] rest)"
      with True 3(1) [of p k] show ?thesis by simp
    qed
  next
    case False
    have inv: "\<forall>j < length (c # acc). \<not> separator_here (drop j (rev (c # acc) @ d # rest))"
    proof (intro allI impI)
      fix j assume j: "j < length (c # acc)"
      show "\<not> separator_here (drop j (rev (c # acc) @ d # rest))"
      proof (cases "j < length acc")
        case True
        with 3(3) show ?thesis by simp
      next
        case f: False
        with j have "j = length acc" by simp
        with False show ?thesis by simp
      qed
    qed
    from False 3(4) have "p \<in> set (split_go (c # acc) (d # rest))" by simp
    from 3(2) [OF False inv this] show ?thesis .
  qed
qed

lemma split_sample_story:
  "split_chapters sample_story = [[0x0041], [0x7B2C, 0x0032, 0x7AE0, 0x0042]]"
  by (simp add: split_chapters_def sample_story_def separator_here_def heading_ahead_def
      is_line_terminator_def)

lemma dot_star_then_iff:
  "dot_star_then c xs \<longleftrightarrow> (\<exists>t u. xs = t @ c # u \<and> (\<forall>x \<in> set t. \<not> is_line_terminator x))"
proof (induction xs)
  case Nil
  then show ?case by simp
next
  case (Cons x xs)
  show ?case
  proof
    assume "dot_star_then c (x # xs)"
    then consider "x = c" | "\<not> is_line_terminator x" "dot_star_then c xs" by auto
    then show "\<exists>t u. x # xs = t @ c # u \<and> (\<forall>x \<in> set t. \<not> is_line_terminator x)"
    proof cases
      case 1
      then have "x # xs = [] @ c # xs \<and> (\<forall>x \<in> set []. \<not> is_line_terminator x)" by simp
      then show ?thesis by blast
    next
      case 2
      with Cons.IH obtain t u where "xs = t @ c # u" "\<forall>x \<in> set t. \<not> is_line_terminator x"
        by auto
      with 2(1) have "x # xs = (x # t) @ c # u \<and> (\<forall>y \<in> set (x # t). \<not> is_line_terminator y)"
        by simp
      then show ?thesis by blast
    qed
  next
    assume "\<exists>t u. x # xs = t @ c # u \<and> (\<forall>x \<in> set t. \<not> is_line_terminator x)"
    then obtain t u where e: "x # xs = t @ c # u" and n: "\<forall>x \<in> set t. \<not> is_line_terminator x"
      by auto
    show "dot_star_then c (x # xs)"
    proof (cases t)
      case Nil
      with e show ?thesis by simp
    next
      case (Cons y t')
      with e n have "x = y" "xs = t' @ c # u" "\<not> is_line_terminator x"
        "\<forall>x \<in> set t'. \<not> is_line_terminator x" by auto
      with Cons.IH show ?thesis by auto
    qed
  qed
qed

lemma line_terminator_set:
  "(\<forall>x \<in> set t. \<not> is_line_terminator x) \<longleftrightarrow> set t \<inter> {0x000A, 0x000D, 0x2028, 0x2029} = {}"
  by (auto simp: is_line_terminator_def)

lemma heading_ahead_iff:
  "heading_ahead s \<longleftrightarrow>
   (\<exists>t u. s = 0x7B2C # t @ 0x7AE0 # u \<and> set t \<inter> {0x000A, 0x000D, 0x2028, 0x2029} = {})"
proof (cases s)
  case Nil
  then show ?thesis by (simp add: heading_ahead_def)
next
  case (Cons c cs)
  then show ?thesis
    by (auto simp: heading_ahead_def dot_star_then_iff line_terminator_set)
qed

lemma separator_here_iff:
  "separator_here s \<longleftrightarrow>
   (\<exists>t u. s = [0x000A, 0x000A, 0x7B2C] @ t @ 0x7AE0 # u
          \<and> set t \<inter> {0x000A, 0x000D, 0x2028, 0x2029} = {})"
proof (cases s)
  case Nil
  then show ?thesis by (simp add: separator_here_def)
next
  case (Cons c cs)
  show ?thesis
  proof (cases cs)
    case Nil
    with Cons show ?thesis by (simp add: separator_here_def)
  next
    case (Cons d rest)
    with \<open>s = c # cs\<close> show ?thesis
      by (auto simp: separator_here_def heading_ahead_iff)
  qed
qed

lemma no_separator_inside:
  assumes "\<forall>k. \<not> separator_here (drop k p)"
      and "p = v @ [0x000A, 0x000A, 0x7B2C] @ t @ 0x7AE0 # u"
  shows "set t \<inter> {0x000A, 0x000D, 0x2028, 0x2029} \<noteq> {}"
proof
  assume e: "set t \<inter> {0x000A, 0x000D, 0x2028, 0x2029} = {}"
  have "drop (length v) p = [0x000A, 0x000A, 0x7B2C] @ t @ 0x7AE0 # u"
    by (simp add: assms(2))
  with e have "separator_here (drop (length v) p)"
    unfolding separator_here_iff by blast
  with assms(1) show False by blast
qed

lemma split_plain_break_story:
  "split_chapters plain_break_story =
     [[0x0041, 0x000A, 0x000A, 0x0042, 0x000A, 0x000A, 0x7B2C, 0x000A, 0x7AE0],
      [0x7B2C, 0x0032, 0x7AE0, 0x0043]]"
  by (simp add: split_chapters_def plain_break_story_def separator_here_def heading_ahead_def
      is_line_terminator_def)

subsection \<open>An undisturbed narration\<close>

lemma chapter_actions_explicit:
  "chapter_actions chs base i x =
     [CallGenerateSpeech
        \<lparr> speech_text = SPEECH_PREFIX @ take 1500 (chs ! i),
          speech_voice = (if even i then [0x004B, 0x006F, 0x0072, 0x0065]
                          else [0x0050, 0x0075, 0x0063, 0x006B]) \<rparr>,
      CallDecodeAudio x, SourceStart (base + i)] @
     (if i < length chs - 1 then [SetTimeout 800] else [])"
  by (simp add: chapter_actions_def speech_of_def generateSpeech_request_def slice_first_def
      VOICE_KORE_def VOICE_PUCK_def)

lemma narrate_remaining:
  assumes "w_narrs w = [\<lparr> chapters = chs, idx = i, waiting = AwaitSpeech \<rparr>]"
      and "isReadingRef (w_app w)"
      and "audioContextRef (w_app w) = Some (base + i)"
      and "i < length chs"
      and "k = length chs - i"
  shows "run (map (NarrationSettled 0)
              (concat (map (\<lambda>j. chapter_script (length chs) j (audio j)) [i..<length chs]))) w =
         w\<lparr> w_app := (w_app w)\<lparr> audioContextRef := Some (base + length chs),
                        sourceRef := Some (base + length chs - 1),
                        isPlaying := False, playingChapterIndex := None,
                        isReadingRef := False \<rparr>,
            w_narrs := [],
            w_log := w_log w @
              tl (concat (map (\<lambda>j. chapter_actions chs base j (audio j)) [i..<length chs])) \<rparr>"
  using assms
proof (induction k arbitrary: i w)
  case 0
  then show ?case by simp
next
  case (Suc k)
  let ?n = "length chs"
  show ?case
  proof (cases "i = ?n - 1")
    case True
    then have upt: "[i..<?n] = [i]"
      using Suc.prems(4) by (simp add: upt_conv_Cons)
    have c: "audioContextRef (w_app w) = Some (base + i)" by (rule Suc.prems(3))
    have s1: "concat (map (\<lambda>j. chapter_script ?n j (audio j)) [i..<?n])
              = chapter_script ?n i (audio i)"
      unfolding upt by simp
    have s2: "tl (concat (map (\<lambda>j. chapter_actions chs base j (audio j)) [i..<?n]))
              = [CallDecodeAudio (audio i), SourceStart (base + i)]"
      unfolding upt using True by (simp add: chapter_actions_def)
    have s3: "base + ?n = base + i + 1" "base + ?n - 1 = base + i"
      using True Suc.prems(4) by simp_all
    show ?thesis
      unfolding s1 s2 s3
      by (simp add: narrate_last_chapter [OF Suc.prems(1) Suc.prems(2) c True])
  next
    case False
    then have lt: "i < ?n - 1" using Suc.prems(4) by simp
    then have upt: "[i..<?n] = i # [Suc i..<?n]"
      by (simp add: upt_conv_Cons)
    have upt2: "[Suc i..<?n] = Suc i # [Suc (Suc i)..<?n]"
      using lt by (simp add: upt_conv_Cons)
    define w1 where "w1 = run (map (NarrationSettled 0) (chapter_script ?n i (audio i))) w"
    have c: "audioContextRef (w_app w) = Some (base + i)" by (rule Suc.prems(3))
    have w1: "w1 = w\<lparr> w_app := (w_app w)\<lparr> audioContextRef := Some (base + i + 1),
                        sourceRef := Some (base + i),
                        playingChapterIndex := Some (i + 2) \<rparr>,
            w_narrs := [\<lparr> chapters = chs, idx = i + 1, waiting = AwaitSpeech \<rparr>],
            w_log := w_log w @ [CallDecodeAudio (audio i), SourceStart (base + i), SetTimeout 800,
                                speech_of chs (i + 1)] \<rparr>"
      unfolding w1_def
      by (rule narrate_inner_chapter [OF Suc.prems(1) Suc.prems(2) c lt])
    have ih: "run (map (NarrationSettled 0)
              (concat (map (\<lambda>j. chapter_script ?n j (audio j)) [Suc i..<?n]))) w1 =
         w1\<lparr> w_app := (w_app w1)\<lparr> audioContextRef := Some (base + ?n),
                        sourceRef := Some (base + ?n - 1),
                        isPlaying := False, playingChapterIndex := None,
                        isReadingRef := False \<rparr>,
            w_narrs := [],
            w_log := w_log w1 @
              tl (concat (map (\<lambda>j. chapter_actions chs base j (audio j)) [Suc i..<?n])) \<rparr>"
      using Suc.prems(2) Suc.prems(5) lt
      by (intro Suc.IH) (simp_all add: w1)
    have tl1: "concat (map (\<lambda>j. chapter_actions chs base j (audio j)) [Suc i..<?n])
             = speech_of chs (Suc i)
               # tl (concat (map (\<lambda>j. chapter_actions chs base j (audio j)) [Suc i..<?n]))"
      unfolding upt2 by (simp add: chapter_actions_def speech_of_def)
    have tl0: "tl (concat (map (\<lambda>j. chapter_actions chs base j (audio j)) [i..<?n]))
             = [CallDecodeAudio (audio i), SourceStart (base + i), SetTimeout 800]
               @ concat (map (\<lambda>j. chapter_actions chs base j (audio j)) [Suc i..<?n])"
      unfolding upt using lt by (simp add: chapter_actions_def)
    have "run (map (NarrationSettled 0)
              (concat (map (\<lambda>j. chapter_script ?n j (audio j)) [i..<?n]))) w
        = run (map (NarrationSettled 0)
              (concat (map (\<lambda>j. chapter_script ?n j (audio j)) [Suc i..<?n]))) w1"
      unfolding upt by (simp add: run_append w1_def)
    also note ih
    finally show ?thesis
      by (subst tl0, subst tl1) (simp add: w1)
  qed
qed

lemma click_read_starts:
  assumes "\<not> isPlaying (w_app w)" "truthy (paragraph_text (state (w_app w)))" "w_narrs w = []"
  shows "step ClickRead w =
         w\<lparr> w_app := (w_app w)\<lparr> isPlaying := True, isReadingRef := True,
                audioContextRef := Some (case audioContextRef (w_app w) of None \<Rightarrow> 0 | Some c \<Rightarrow> c),
                playingChapterIndex := Some 1 \<rparr>,
            w_narrs := [\<lparr> chapters = split_chapters (paragraph_text (state (w_app w))),
                           idx = 0, waiting = AwaitSpeech \<rparr>],
            w_log := w_log w @ [speech_of (split_chapters (paragraph_text (state (w_app w)))) 0] \<rparr>"
  using assms
  by (cases "audioContextRef (w_app w)")
     (simp_all add: step_def handleReadFullStory_def Let_def narrate_from_def commit_def
      blueprint_effect_def split_chapters_def split_go_nonempty voice_of_even speech_of_def)



subsection \<open>Cancellation\<close>

text \<open>The sample component, step by step.\<close>

lemmas narr_eval =
  step_def handleReadFullStory_def narration_resume_def narrate_from_def narrate_finally_def
  stopAudio_def commit_def blueprint_effect_def remove_nth_def
  Let_def voice_of_def speech_of_def world_of_def loop_at_def
  narrating_app_def stopped_app_def playing_app_def
  idle_app_simps truthy_sample_story split_sample_story sample_chapters_def

lemma read_starts:
  "step ClickRead (world_of idle_app gs ns l) =
   world_of narrating_app gs (ns @ [loop_at 0 AwaitSpeech]) (l @ [speech_of sample_chapters 0])"
  by (simp add: narr_eval)

lemma read_stops:
  "step ClickRead (world_of narrating_app gs ns l) = world_of stopped_app gs ns l"
  by (simp add: narr_eval)

lemma read_starts_again:
  "step ClickRead (world_of stopped_app gs ns l) =
   world_of narrating_app gs (ns @ [loop_at 0 AwaitSpeech]) (l @ [speech_of sample_chapters 0])"
  by (simp add: narr_eval)

lemma speech_arrives:
  "step (NarrationSettled 0 (SpeechSettled (Resolved x)))
     (world_of narrating_app gs (loop_at 0 AwaitSpeech # ns) l) =
   world_of narrating_app gs (loop_at 0 AwaitDecode # ns) (l @ [CallDecodeAudio x])"
  by (simp add: narr_eval)

lemma decoding_done:
  "step (NarrationSettled 0 (DecodeSettled (Resolved ())))
     (world_of narrating_app gs (loop_at 0 AwaitDecode # ns) l) =
   world_of playing_app gs (loop_at 0 AwaitEnded # ns) (l @ [SourceStart 0])"
  by (simp add: narr_eval)

lemma playback_ends:
  "step (NarrationSettled 0 PlaybackEnded)
     (world_of playing_app gs (loop_at 0 AwaitEnded # ns) l) =
   world_of playing_app gs (loop_at 0 AwaitPause # ns) (l @ [SetTimeout 800])"
  by (simp add: narr_eval)

lemma pause_over:
  "step (NarrationSettled 0 TimerFired)
     (world_of playing_app gs (loop_at 0 AwaitPause # ns) l) =
   world_of (playing_app\<lparr> playingChapterIndex := Some 2 \<rparr>) gs
     (loop_at 1 AwaitSpeech # ns) (l @ [speech_of sample_chapters 1])"
  by (simp add: narr_eval)

lemmas sample_steps =
  read_starts read_stops read_starts_again speech_arrives decoding_done playback_ends
  pause_over

lemma read_enabled:
  "enabled ClickRead (world_of idle_app gs ns l)"
  "enabled ClickRead (world_of narrating_app gs ns l)"
  "enabled ClickRead (world_of stopped_app gs ns l)"
  by (simp_all add: enabled_def narrating_app_def stopped_app_def idle_app_simps
      truthy_def sample_story_def)

lemma settle_enabled:
  "enabled (NarrationSettled 0 (SpeechSettled r)) (world_of a gs (loop_at i AwaitSpeech # ns) l)"
  "enabled (NarrationSettled 0 (DecodeSettled d)) (world_of a gs (loop_at i AwaitDecode # ns) l)"
  "enabled (NarrationSettled 0 PlaybackEnded) (world_of a gs (loop_at i AwaitEnded # ns) l)"
  "enabled (NarrationSettled 0 TimerFired) (world_of a gs (loop_at i AwaitPause # ns) l)"
  by (simp_all add: enabled_def awaited_def loop_at_def)

text \<open>
  Claim C6 (after the stop control has cleared the flag, the loop requests no further
  speech and starts no playback) at a narration that is stopped and started again. The
  flag is one boolean shared by all loops. The button is clicked three times while the
  first synthesis call is out: the second click is the stop control and clears the flag,
  the third starts a second loop and raises it again. The first loop, which was stopped,
  finds the flag raised when its synthesis call returns: it decodes, starts the playback
  of its chapter, pauses, and requests the speech of the next chapter, beside the second
  loop. Every event of the run is one that the rendered page allows.
\<close>

theorem stopped_loop_goes_on:
  "split_chapters sample_story = sample_chapters
   \<and> feasible (stop_and_restart @ first_loop_goes_on) idle_world
   \<and> run [ClickRead, ClickRead] idle_world =
       world_of stopped_app [] [loop_at 0 AwaitSpeech] [speech_of sample_chapters 0]
   \<and> \<not> isReadingRef stopped_app
   \<and> run stop_and_restart idle_world =
       world_of narrating_app [] [loop_at 0 AwaitSpeech, loop_at 0 AwaitSpeech]
         [speech_of sample_chapters 0, speech_of sample_chapters 0]
   \<and> run (stop_and_restart @ first_loop_goes_on) idle_world =
       world_of (playing_app\<lparr> playingChapterIndex := Some 2 \<rparr>) []
         [loop_at 1 AwaitSpeech, loop_at 0 AwaitSpeech]
         [speech_of sample_chapters 0, speech_of sample_chapters 0, CallDecodeAudio [0x0078],
          SourceStart 0, SetTimeout 800, speech_of sample_chapters 1]"
proof -
  have c: "split_chapters sample_story = sample_chapters"
    by (simp add: split_sample_story sample_chapters_def)
  have f1: "feasible (stop_and_restart @ first_loop_goes_on) idle_world"
    by (simp add: stop_and_restart_def first_loop_goes_on_def idle_world_of sample_steps
        read_enabled settle_enabled)
  have r2: "run [ClickRead, ClickRead] idle_world =
       world_of stopped_app [] [loop_at 0 AwaitSpeech] [speech_of sample_chapters 0]"
    by (simp add: run_def idle_world_of sample_steps)
  have n: "\<not> isReadingRef stopped_app"
    by (simp add: stopped_app_def idle_app_simps)
  have r3: "run stop_and_restart idle_world =
       world_of narrating_app [] [loop_at 0 AwaitSpeech, loop_at 0 AwaitSpeech]
         [speech_of sample_chapters 0, speech_of sample_chapters 0]"
    by (simp add: run_def stop_and_restart_def idle_world_of sample_steps)
  have r7: "run (stop_and_restart @ first_loop_goes_on) idle_world =
       world_of (playing_app\<lparr> playingChapterIndex := Some 2 \<rparr>) []
         [loop_at 1 AwaitSpeech, loop_at 0 AwaitSpeech]
         [speech_of sample_chapters 0, speech_of sample_chapters 0, CallDecodeAudio [0x0078],
          SourceStart 0, SetTimeout 800, speech_of sample_chapters 1]"
    by (simp add: run_def stop_and_restart_def first_loop_goes_on_def idle_world_of sample_steps)
  from c f1 r2 n r3 r7 show ?thesis by blast
qed

text \<open>
  While the flag stays clear the cancellation works at three of the four \<open>await\<close>s: a loop
  that is resumed from waiting for a synthesis result, for the end of a playback or for
  the pause between chapters returns, requests no speech, starts no playback and leaves
  the flag clear; anything it is not waiting for leaves it suspended and does nothing.
\<close>

lemma cleared_flag_ends_loop:
  assumes "\<not> isReadingRef a" and "waiting n \<noteq> AwaitDecode"
  shows "\<not> isReadingRef (fst (stopAudio b))
         \<and> narrate_from chs i a = (a, None, [])
         \<and> (case narration_resume n s a of
               (a', n', acts) \<Rightarrow>
                 \<not> isReadingRef a'
                 \<and> (\<forall>r. CallGenerateSpeech r \<notin> set acts)
                 \<and> (\<forall>k. SourceStart k \<notin> set acts)
                 \<and> (if awaited (waiting n) s then n' = None else n' = Some n \<and> a' = a))"
proof -
  have 1: "\<not> isReadingRef (fst (stopAudio b))"
    by (simp add: stopAudio_def)
  have 2: "narrate_from chs i a = (a, None, [])" for chs i
    using assms(1) by (simp add: narrate_from_def narrate_finally_def)
  have 3: "case narration_resume n s a of
               (a', n', acts) \<Rightarrow>
                 \<not> isReadingRef a'
                 \<and> (\<forall>r. CallGenerateSpeech r \<notin> set acts)
                 \<and> (\<forall>k. SourceStart k \<notin> set acts)
                 \<and> (if awaited (waiting n) s then n' = None else n' = Some n \<and> a' = a)"
    using assms
    by (cases "waiting n"; cases s)
       (auto simp: narration_resume_def narrate_finally_def narrate_catch_def 2 awaited_def
        split: outcome.splits)
  from 1 2 3 show ?thesis by blast
qed

subsection \<open>What is read aloud\<close>

lemma narrate_from_speech:
  assumes "narrate_from chs i a = (a', n', acts)" "CallGenerateSpeech r \<in> set acts"
  shows "i < length chs \<and> isReadingRef a
         \<and> r = generateSpeech_request (slice_first 1500 (chs ! i)) (voice_of i)
         \<and> n' = Some \<lparr> chapters = chs, idx = i, waiting = AwaitSpeech \<rparr>"
  using assms
  by (auto simp: narrate_from_def narrate_finally_def Let_def split: if_splits)

lemma split_go_no_line_feed:
  "0x000A \<notin> set s \<Longrightarrow> split_go acc s = [rev acc @ s]"
  by (induction acc s rule: split_go.induct) (auto simp: separator_here_def)

text \<open>
  Claim C9. Whenever the narration requests speech, from the click or from a resumed loop,
  the text it hands to \<open>generateSpeech\<close> is \<open>chapterText.slice(0, 1500)\<close> of the chapter
  the loop has reached: its first 1500 code units, the whole chapter when it is shorter.
  The code units behind the first 1500 are never sent.
\<close>

theorem narration_reads_first_1500:
  assumes "handleReadFullStory a = (a', n', acts) \<or> narration_resume n s a = (a', n', acts)"
      and "CallGenerateSpeech r \<in> set acts"
  shows "\<exists>chs i. n' = Some \<lparr> chapters = chs, idx = i, waiting = AwaitSpeech \<rparr>
           \<and> i < length chs
           \<and> speech_text r = SPEECH_PREFIX @ slice_first 1500 (chs ! i)
           \<and> slice_first 1500 (chs ! i) = take 1500 (chs ! i)
           \<and> length (slice_first 1500 (chs ! i)) \<le> 1500
           \<and> (length (chs ! i) \<le> 1500 \<longrightarrow> slice_first 1500 (chs ! i) = chs ! i)
           \<and> (chs = split_chapters (paragraph_text (state a)) \<and> i = 0
               \<or> chs = chapters n \<and> i = idx n + 1)"
proof -
  from assms(1) show ?thesis
  proof
    assume h: "handleReadFullStory a = (a', n', acts)"
    show ?thesis
    proof (cases "isPlaying a")
      case True
      with h assms(2) show ?thesis
        by (auto simp: handleReadFullStory_def stopAudio_def split: option.splits)
    next
      case False
      show ?thesis
      proof (cases "truthy (paragraph_text (state a))")
        case f: False
        with False h assms(2) show ?thesis by (simp add: handleReadFullStory_def)
      next
        case t: True
        define a2 where "a2 = (if audioContextRef a = None
           then a\<lparr> isPlaying := True, isReadingRef := True, audioContextRef := Some 0 \<rparr>
           else a\<lparr> isPlaying := True, isReadingRef := True \<rparr>)"
        from h False t
        have "narrate_from (split_chapters (paragraph_text (state a))) 0 a2 = (a', n', acts)"
          by (simp add: handleReadFullStory_def Let_def a2_def split: if_splits)
        from narrate_from_speech [OF this assms(2)] show ?thesis
          by (simp add: generateSpeech_request_def slice_first_def)
      qed
    qed
  next
    assume h: "narration_resume n s a = (a', n', acts)"
    have "narrate_from (chapters n) (idx n + 1) a = (a', n', acts)"
      using h assms(2)
      by (auto simp: narration_resume_def narrate_finally_def narrate_catch_def
          split: wait.splits settled.splits outcome.splits if_splits option.splits)
    from narrate_from_speech [OF this assms(2)] show ?thesis
      by (simp add: generateSpeech_request_def slice_first_def)
  qed
qed

text \<open>A chapter of 1600 code units: 1500 are sent.\<close>

theorem narration_reads_first_1500_witness:
  "handleReadFullStory long_app =
     (long_app\<lparr> isPlaying := True, isReadingRef := True, audioContextRef := Some 0,
        playingChapterIndex := Some 1 \<rparr>,
      Some \<lparr> chapters = [replicate 1600 0x0041], idx = 0, waiting = AwaitSpeech \<rparr>,
      [CallGenerateSpeech \<lparr> speech_text = SPEECH_PREFIX @ replicate 1500 0x0041,
                            speech_voice = VOICE_KORE \<rparr>])
   \<and> length (replicate 1500 (0x0041 :: 16 word)) = 1500
   \<and> replicate 1500 (0x0041 :: 16 word) = take 1500 (replicate 1600 0x0041)"
proof -
  let ?r = "\<lparr> speech_text = SPEECH_PREFIX @ replicate 1500 0x0041, speech_voice = VOICE_KORE \<rparr>"
  have sp: "split_chapters (replicate 1600 0x0041) = [replicate 1600 0x0041]"
    by (simp add: split_chapters_def split_go_no_line_feed)
  have p: "paragraph_text (state long_app) = replicate 1600 0x0041"
    by (simp add: long_app_def)
  have f: "\<not> isPlaying long_app" "audioContextRef long_app = None"
    by (simp_all add: long_app_def idle_app_def)
  have h: "handleReadFullStory long_app =
     (long_app\<lparr> isPlaying := True, isReadingRef := True, audioContextRef := Some 0,
        playingChapterIndex := Some 1 \<rparr>,
      Some \<lparr> chapters = [replicate 1600 0x0041], idx = 0, waiting = AwaitSpeech \<rparr>,
      [CallGenerateSpeech ?r])"
    by (simp add: handleReadFullStory_def p f truthy_def sp narrate_from_def voice_of_def
        generateSpeech_request_def slice_first_def Let_def)
  have m: "CallGenerateSpeech ?r \<in> set [CallGenerateSpeech ?r]" by simp
  have t: "length (replicate 1500 (0x0041 :: 16 word)) = 1500
           \<and> replicate 1500 (0x0041 :: 16 word) = take 1500 (replicate 1600 0x0041)"
    by simp
  from narration_reads_first_1500 [OF disjI1, OF h m] h t
  show ?thesis by blast
qed

section \<open>The parse of the first response\<close>

lemma occurs_iff: "occurs lit s \<longleftrightarrow> (\<exists>pre rest. s = pre @ lit @ rest)"
proof (induction s)
  case Nil
  then show ?case by auto
next
  case (Cons c cs)
  show ?case
  proof
    assume "occurs lit (c # cs)"
    then consider "prefix lit (c # cs)" | "occurs lit cs" by auto
    then show "\<exists>pre rest. c # cs = pre @ lit @ rest"
    proof cases
      case 1
      then obtain rest where "c # cs = lit @ rest" by (auto simp: prefix_def)
      then have "c # cs = [] @ lit @ rest" by simp
      then show ?thesis by blast
    next
      case 2
      with Cons obtain pre rest where "cs = pre @ lit @ rest" by auto
      then have "c # cs = (c # pre) @ lit @ rest" by simp
      then show ?thesis by blast
    qed
  next
    assume "\<exists>pre rest. c # cs = pre @ lit @ rest"
    then obtain pre rest where d: "c # cs = pre @ lit @ rest" by auto
    show "occurs lit (c # cs)"
    proof (cases pre)
      case Nil
      with d have "prefix lit (c # cs)" by (simp add: prefix_def)
      then show ?thesis by simp
    next
      case (Cons x pre')
      with d have "cs = pre' @ lit @ rest" by simp
      with Cons.IH show ?thesis by auto
    qed
  qed
qed

lemma not_prefix_before:
  assumes "\<not> occurs lit ((x # a) @ butlast lit)"
  shows "\<not> prefix lit (x # a @ lit @ rest)"
proof
  assume p: "prefix lit (x # a @ lit @ rest)"
  have q: "prefix (x # a @ butlast lit) (x # a @ lit @ rest)"
    by (simp add: prefix_def) (metis append_butlast_last_id append_Nil append_assoc butlast.simps(1))
  have "length lit \<le> length (x # a @ butlast lit)" by simp
  from prefix_length_prefix [OF p q this] have "prefix lit (x # a @ butlast lit)" .
  with assms show False by simp
qed

lemma first_occurrence_Cons:
  "first_occurrence lit (x # a) \<Longrightarrow> first_occurrence lit a"
  by (simp add: first_occurrence_def)

lemma lazy_until_first:
  assumes "lit \<noteq> []" "first_occurrence lit a"
  shows "lazy_until lit (a @ lit @ rest) = Some a"
  using assms(2)
proof (induction a)
  case Nil
  from assms(1) obtain c cs where "lit @ rest = c # cs" by (cases lit) auto
  then show ?case by (simp add: prefix_def) (metis prefixI prefix_def)
next
  case (Cons x a)
  from Cons.prems have "\<not> prefix lit (x # a @ lit @ rest)"
    unfolding first_occurrence_def by (rule not_prefix_before)
  with Cons.IH [OF first_occurrence_Cons [OF Cons.prems]] show ?case by simp
qed

lemma lazy_until_None: "lazy_until lit s = None \<longleftrightarrow> \<not> occurs lit s"
  by (induction s) auto

lemma lazy_until_Some:
  "lazy_until lit s = Some cap \<Longrightarrow> \<exists>rest. s = cap @ lit @ rest"
proof (induction s arbitrary: cap)
  case Nil
  then show ?case by (auto split: if_splits)
next
  case (Cons c cs)
  show ?case
  proof (cases "prefix lit (c # cs)")
    case True
    with Cons.prems show ?thesis by (auto simp: prefix_def)
  next
    case False
    with Cons.prems obtain cap' where c: "cap = c # cap'" and l: "lazy_until lit cs = Some cap'"
      by auto
    from Cons.IH [OF l] show ?thesis by (auto simp: c)
  qed
qed

lemma regex_after_first:
  assumes "lit \<noteq> []" "first_occurrence lit a"
  shows "regex_after lit (a @ lit @ rest) = Some rest"
  using assms(2)
proof (induction a)
  case Nil
  from assms(1) obtain c cs where e: "lit @ rest = c # cs" by (cases lit) auto
  have "prefix lit (lit @ rest)" by simp
  then show ?case unfolding append_Nil e using e by (simp) (metis append_eq_conv_conj)
next
  case (Cons x a)
  from Cons.prems have "\<not> prefix lit (x # a @ lit @ rest)"
    unfolding first_occurrence_def by (rule not_prefix_before)
  with Cons.IH [OF first_occurrence_Cons [OF Cons.prems]] show ?case by simp
qed

lemma regex_after_None: "regex_after lit s = None \<longleftrightarrow> \<not> occurs lit s"
  by (induction s) auto

lemma match_here_Some:
  "match_here lit1 lit2 s = Some cap \<Longrightarrow> \<exists>rest. s = lit1 @ cap @ lit2 @ rest"
proof -
  assume m: "match_here lit1 lit2 s = Some cap"
  then have p: "prefix lit1 s" and l: "lazy_until lit2 (drop (length lit1) s) = Some cap"
    by (auto simp: match_here_def split: if_splits)
  from p obtain t where s: "s = lit1 @ t" by (auto simp: prefix_def)
  with l have "lazy_until lit2 t = Some cap" by simp
  from lazy_until_Some [OF this] s show ?thesis by auto
qed

lemma regex_between_Some:
  "regex_between lit1 lit2 s = Some cap \<Longrightarrow> \<exists>pre rest. s = pre @ lit1 @ cap @ lit2 @ rest"
proof (induction s)
  case Nil
  then have "match_here lit1 lit2 [] = Some cap" by simp
  from match_here_Some [OF this] show ?case by (metis append_Nil)
next
  case (Cons c cs)
  show ?case
  proof (cases "match_here lit1 lit2 (c # cs)")
    case None
    with Cons.prems have "regex_between lit1 lit2 cs = Some cap" by simp
    from Cons.IH [OF this] obtain pre rest where "cs = pre @ lit1 @ cap @ lit2 @ rest" by auto
    then have "c # cs = (c # pre) @ lit1 @ cap @ lit2 @ rest" by simp
    then show ?thesis by blast
  next
    case (Some cap')
    with Cons.prems have "cap' = cap" by simp
    with Some match_here_Some [of lit1 lit2 "c # cs" cap] show ?thesis
      by (metis append_Nil)
  qed
qed

lemma regex_between_found:
  "regex_between lit1 lit2 (pre @ lit1 @ a @ lit2 @ rest) \<noteq> None"
proof (induction pre)
  case Nil
  have o: "occurs lit2 (a @ lit2 @ rest)" by (auto simp: occurs_iff)
  then have "lazy_until lit2 (a @ lit2 @ rest) \<noteq> None" by (simp add: lazy_until_None)
  then have m: "match_here lit1 lit2 (lit1 @ a @ lit2 @ rest) \<noteq> None"
    by (simp add: match_here_def)
  show ?case
  proof (cases "lit1 @ a @ lit2 @ rest")
    case Nil
    with m show ?thesis by simp
  next
    case (Cons c cs)
    with m show ?thesis by (auto split: option.splits)
  qed
next
  case (Cons x pre)
  then show ?case by (auto split: option.splits)
qed

lemma regex_between_None:
  "regex_between lit1 lit2 s = None \<longleftrightarrow> \<not> (\<exists>pre a rest. s = pre @ lit1 @ a @ lit2 @ rest)"
proof
  assume n: "regex_between lit1 lit2 s = None"
  show "\<not> (\<exists>pre a rest. s = pre @ lit1 @ a @ lit2 @ rest)"
  proof
    assume "\<exists>pre a rest. s = pre @ lit1 @ a @ lit2 @ rest"
    then obtain pre a rest where "s = pre @ lit1 @ a @ lit2 @ rest" by auto
    with regex_between_found [of lit1 lit2 pre a rest] n show False by simp
  qed
next
  assume "\<not> (\<exists>pre a rest. s = pre @ lit1 @ a @ lit2 @ rest)"
  with regex_between_Some [of lit1 lit2 s] show "regex_between lit1 lit2 s = None"
    by (cases "regex_between lit1 lit2 s") auto
qed

lemma regex_between_missing:
  "\<not> occurs lit1 s \<or> \<not> occurs lit2 s \<Longrightarrow> regex_between lit1 lit2 s = None"
proof -
  assume m: "\<not> occurs lit1 s \<or> \<not> occurs lit2 s"
  have "\<not> (\<exists>pre a rest. s = pre @ lit1 @ a @ lit2 @ rest)"
  proof
    assume "\<exists>pre a rest. s = pre @ lit1 @ a @ lit2 @ rest"
    then obtain pre a rest where s: "s = pre @ lit1 @ a @ lit2 @ rest" by auto
    then have "occurs lit1 s" by (auto simp: occurs_iff)
    moreover from s have "s = (pre @ lit1 @ a) @ lit2 @ rest" by simp
    then have "occurs lit2 s" unfolding occurs_iff by blast
    ultimately show False using m by simp
  qed
  then show ?thesis by (simp add: regex_between_None)
qed

lemma regex_between_first:
  assumes "lit1 \<noteq> []" "first_occurrence lit1 pre" "lit2 \<noteq> []" "first_occurrence lit2 a"
  shows "regex_between lit1 lit2 (pre @ lit1 @ a @ lit2 @ rest) = Some a"
  using assms(2)
proof (induction pre)
  case Nil
  from assms(1) obtain c cs where e: "lit1 @ a @ lit2 @ rest = c # cs" by (cases lit1) auto
  have "match_here lit1 lit2 (lit1 @ a @ lit2 @ rest) = Some a"
    by (simp add: match_here_def lazy_until_first [OF assms(3) assms(4)])
  then show ?case unfolding append_Nil e by simp
next
  case (Cons x pre)
  from Cons.prems have "\<not> prefix lit1 (x # pre @ lit1 @ a @ lit2 @ rest)"
    unfolding first_occurrence_def by (rule not_prefix_before)
  then have "match_here lit1 lit2 (x # pre @ lit1 @ a @ lit2 @ rest) = None"
    by (simp add: match_here_def)
  with Cons.IH [OF first_occurrence_Cons [OF Cons.prems]] show ?case by simp
qed

lemma first_occurrence_suffix:
  "first_occurrence lit (pre @ a) \<Longrightarrow> first_occurrence lit a"
proof (induction pre)
  case Nil
  then show ?case by simp
next
  case (Cons x pre)
  then show ?case by (simp add: first_occurrence_def)
qed

lemma markers_nonempty:
  "MARK_ANALYSIS \<noteq> []" "MARK_BLUEPRINT \<noteq> []" "MARK_STORY \<noteq> []"
  by (simp_all add: MARK_ANALYSIS_def MARK_BLUEPRINT_def MARK_STORY_def)

lemmas marker_defs = MARK_ANALYSIS_def MARK_BLUEPRINT_def MARK_STORY_def

lemma trim_samples:
  "js_trim [0x0020, 0x0041, 0x000A] = [0x0041]"
  "js_trim [0x0042, 0x0020] = [0x0042]"
  "js_trim [0x000A, 0x0043, 0x0020] = [0x0043]"
  "js_trim [0x0062] = [0x0062]"
  "js_trim [0x0063] = [0x0063]"
  by (simp_all add: js_trim_def is_js_space_def)

lemma in_order_literals:
  "response_in_order =
     [0x0020, 0x5206, 0x6790, 0xFF1A, 0x0020, 0x0041, 0x000A, 0x5927, 0x7EB2, 0xFF1A,
      0x0042, 0x0020, 0x6545, 0x4E8B, 0xFF1A, 0x000A, 0x0043, 0x0020]"
  by (simp add: response_in_order_def marker_defs)

lemma repeated_story_literals:
  "response_repeated_story =
     [0x5206, 0x6790, 0xFF1A, 0x0061, 0x5927, 0x7EB2, 0xFF1A, 0x0062, 0x6545, 0x4E8B, 0xFF1A,
      0x0063, 0x6545, 0x4E8B, 0xFF1A, 0x0064]"
  by (simp add: response_repeated_story_def marker_defs)

lemma outline_first_literals:
  "response_outline_first =
     [0x5927, 0x7EB2, 0xFF1A, 0x0078, 0x5206, 0x6790, 0xFF1A, 0x0079, 0x6545, 0x4E8B, 0xFF1A,
      0x007A]"
  by (simp add: response_outline_first_def marker_defs)

lemma parse_repeated_story:
  "analyzeAndPlan_parse (Some response_repeated_story) =
     \<lparr> plan_analysis = [0x0061], plan_blueprint = [0x0062],
       plan_firstChapter = [0x0063, 0x6545, 0x4E8B, 0xFF1A, 0x0064] \<rparr>"
proof -
  have r1: "regex_between MARK_ANALYSIS MARK_BLUEPRINT response_repeated_story = Some [0x0061]"
    unfolding repeated_story_literals by (simp add: marker_defs match_here_def)
  have r2: "regex_between MARK_BLUEPRINT MARK_STORY response_repeated_story = Some [0x0062]"
    unfolding repeated_story_literals by (simp add: marker_defs match_here_def)
  have r3: "regex_after MARK_STORY response_repeated_story
            = Some [0x0063, 0x6545, 0x4E8B, 0xFF1A, 0x0064]"
    unfolding repeated_story_literals by (simp add: marker_defs)
  have d: "or_default (Some response_repeated_story) [] = response_repeated_story"
    by (simp add: or_default_def truthy_def repeated_story_literals)
  have t: "js_trim [0x0061] = [0x0061]" "js_trim [0x0062] = [0x0062]"
    "js_trim [0x0063, 0x6545, 0x4E8B, 0xFF1A, 0x0064] = [0x0063, 0x6545, 0x4E8B, 0xFF1A, 0x0064]"
    by (simp_all add: js_trim_def is_js_space_def)
  show ?thesis
    by (simp add: analyzeAndPlan_parse_def Let_def d r1 r2 r3 t)
qed

lemma analysis_of_repeated_outline:
  "plan_analysis (analyzeAndPlan_parse (Some response_repeated_outline)) = [0x0061]"
proof -
  have l: "response_repeated_outline =
     [0x5206, 0x6790, 0xFF1A, 0x0061, 0x5927, 0x7EB2, 0xFF1A, 0x0062, 0x5927, 0x7EB2, 0xFF1A,
      0x0063, 0x6545, 0x4E8B, 0xFF1A, 0x0064]"
    by (simp add: response_repeated_outline_def marker_defs)
  have r: "regex_between MARK_ANALYSIS MARK_BLUEPRINT response_repeated_outline = Some [0x0061]"
    unfolding l by (simp add: marker_defs match_here_def)
  have d: "or_default (Some response_repeated_outline) [] = response_repeated_outline"
    by (simp add: or_default_def truthy_def l)
  show ?thesis
    by (simp add: analyzeAndPlan_parse_def Let_def d r js_trim_def is_js_space_def)
qed

lemma analysis_of_repeated_analysis:
  "plan_analysis (analyzeAndPlan_parse (Some response_repeated_analysis))
   = [0x0061, 0x5206, 0x6790, 0xFF1A, 0x0062]"
proof -
  have l: "response_repeated_analysis =
     [0x5206, 0x6790, 0xFF1A, 0x0061, 0x5206, 0x6790, 0xFF1A, 0x0062, 0x5927, 0x7EB2, 0xFF1A,
      0x0063, 0x6545, 0x4E8B, 0xFF1A, 0x0064]"
    by (simp add: response_repeated_analysis_def marker_defs)
  have r: "regex_between MARK_ANALYSIS MARK_BLUEPRINT response_repeated_analysis
           = Some [0x0061, 0x5206, 0x6790, 0xFF1A, 0x0062]"
    unfolding l by (simp add: marker_defs match_here_def)
  have d: "or_default (Some response_repeated_analysis) [] = response_repeated_analysis"
    by (simp add: or_default_def truthy_def l)
  show ?thesis
    by (simp add: analyzeAndPlan_parse_def Let_def d r js_trim_def is_js_space_def)
qed

text \<open>
  Claim C7, as stated, fails in both halves. A missing marker does not make all three
  fields fall back: in a response without the analysis marker (outline marker, \<open>b\<close>, story
  marker, \<open>c\<close>) the analysis is the placeholder, but the blueprint is \<open>b\<close>, not its
  placeholder, and the first chapter is \<open>c\<close>, not the whole response. And a response can
  contain the three markers in order in more than one way: with the story marker twice,
  the text between the outline marker and the second story marker is not the blueprint,
  and the text behind the second story marker is not the first chapter; with the outline
  marker twice, the text between the analysis marker and the second outline marker is not
  the analysis; with the analysis marker twice, the text between the second analysis
  marker and the outline marker is not the analysis.
\<close>

theorem marker_claim_fails:
  "\<not> occurs MARK_ANALYSIS response_without_analysis
   \<and> plan_analysis (analyzeAndPlan_parse (Some response_without_analysis)) = ANALYSIS_PLACEHOLDER
   \<and> plan_blueprint (analyzeAndPlan_parse (Some response_without_analysis)) = [0x0062]
   \<and> [0x0062] \<noteq> BLUEPRINT_PLACEHOLDER
   \<and> plan_firstChapter (analyzeAndPlan_parse (Some response_without_analysis)) = [0x0063]
   \<and> [0x0063] \<noteq> response_without_analysis
   \<and> response_repeated_story =
       [] @ MARK_ANALYSIS @ [0x0061] @ MARK_BLUEPRINT @ ([0x0062] @ MARK_STORY @ [0x0063]) @
       MARK_STORY @ [0x0064]
   \<and> plan_blueprint (analyzeAndPlan_parse (Some response_repeated_story))
       \<noteq> js_trim ([0x0062] @ MARK_STORY @ [0x0063])
   \<and> plan_firstChapter (analyzeAndPlan_parse (Some response_repeated_story)) \<noteq> js_trim [0x0064]
   \<and> response_repeated_outline =
       [] @ MARK_ANALYSIS @ ([0x0061] @ MARK_BLUEPRINT @ [0x0062]) @ MARK_BLUEPRINT @ [0x0063] @
       MARK_STORY @ [0x0064]
   \<and> plan_analysis (analyzeAndPlan_parse (Some response_repeated_outline))
       \<noteq> js_trim ([0x0061] @ MARK_BLUEPRINT @ [0x0062])
   \<and> response_repeated_analysis =
       (MARK_ANALYSIS @ [0x0061]) @ MARK_ANALYSIS @ [0x0062] @ MARK_BLUEPRINT @ [0x0063] @
       MARK_STORY @ [0x0064]
   \<and> plan_analysis (analyzeAndPlan_parse (Some response_repeated_analysis)) \<noteq> js_trim [0x0062]"
proof -
  have t: "response_without_analysis
           = [0x5927, 0x7EB2, 0xFF1A, 0x0062, 0x6545, 0x4E8B, 0xFF1A, 0x0063]"
    by (simp add: response_without_analysis_def marker_defs)
  have o: "\<not> occurs MARK_ANALYSIS response_without_analysis"
    unfolding t by (simp add: marker_defs)
  have r1: "regex_between MARK_ANALYSIS MARK_BLUEPRINT response_without_analysis = None"
    using o by (simp add: regex_between_missing)
  have r2: "regex_between MARK_BLUEPRINT MARK_STORY response_without_analysis = Some [0x0062]"
    unfolding t by (simp add: marker_defs match_here_def)
  have r3: "regex_after MARK_STORY response_without_analysis = Some [0x0063]"
    unfolding t by (simp add: marker_defs)
  have d: "or_default (Some response_without_analysis) [] = response_without_analysis"
    by (simp add: or_default_def truthy_def t)
  have p: "analyzeAndPlan_parse (Some response_without_analysis) =
           \<lparr> plan_analysis = ANALYSIS_PLACEHOLDER, plan_blueprint = [0x0062],
             plan_firstChapter = [0x0063] \<rparr>"
    by (simp add: analyzeAndPlan_parse_def Let_def d r1 r2 r3 trim_samples)
  have n1: "[0x0062] \<noteq> BLUEPRINT_PLACEHOLDER"
    by (simp add: BLUEPRINT_PLACEHOLDER_def)
  have n2: "[0x0063] \<noteq> response_without_analysis"
    by (simp add: t)
  have e: "response_repeated_story =
       [] @ MARK_ANALYSIS @ [0x0061] @ MARK_BLUEPRINT @ ([0x0062] @ MARK_STORY @ [0x0063]) @
       MARK_STORY @ [0x0064]"
    by (simp add: response_repeated_story_def)
  have t1: "js_trim ([0x0062] @ MARK_STORY @ [0x0063]) = [0x0062, 0x6545, 0x4E8B, 0xFF1A, 0x0063]"
    by (simp add: js_trim_def is_js_space_def marker_defs)
  have t2: "js_trim [0x0064] = [0x0064]"
    by (simp add: js_trim_def is_js_space_def)
  have b: "plan_blueprint (analyzeAndPlan_parse (Some response_repeated_story))
       \<noteq> js_trim ([0x0062] @ MARK_STORY @ [0x0063])"
    unfolding t1 by (simp add: parse_repeated_story)
  have c: "plan_firstChapter (analyzeAndPlan_parse (Some response_repeated_story))
           \<noteq> js_trim [0x0064]"
    unfolding t2 by (simp add: parse_repeated_story)
  have e2: "response_repeated_outline =
       [] @ MARK_ANALYSIS @ ([0x0061] @ MARK_BLUEPRINT @ [0x0062]) @ MARK_BLUEPRINT @ [0x0063] @
       MARK_STORY @ [0x0064]"
    by (simp add: response_repeated_outline_def)
  have t3: "js_trim ([0x0061] @ MARK_BLUEPRINT @ [0x0062])
            = [0x0061, 0x5927, 0x7EB2, 0xFF1A, 0x0062]"
    by (simp add: js_trim_def is_js_space_def marker_defs)
  have b2: "plan_analysis (analyzeAndPlan_parse (Some response_repeated_outline))
       \<noteq> js_trim ([0x0061] @ MARK_BLUEPRINT @ [0x0062])"
    unfolding t3 by (simp add: analysis_of_repeated_outline)
  have e3: "response_repeated_analysis =
       (MARK_ANALYSIS @ [0x0061]) @ MARK_ANALYSIS @ [0x0062] @ MARK_BLUEPRINT @ [0x0063] @
       MARK_STORY @ [0x0064]"
    by (simp add: response_repeated_analysis_def)
  have t4: "js_trim [0x0062] = [0x0062]"
    by (simp add: js_trim_def is_js_space_def)
  have b3: "plan_analysis (analyzeAndPlan_parse (Some response_repeated_analysis))
            \<noteq> js_trim [0x0062]"
    unfolding t4 by (simp add: analysis_of_repeated_analysis)
  from o p n1 n2 have first: "\<not> occurs MARK_ANALYSIS response_without_analysis
   \<and> plan_analysis (analyzeAndPlan_parse (Some response_without_analysis)) = ANALYSIS_PLACEHOLDER
   \<and> plan_blueprint (analyzeAndPlan_parse (Some response_without_analysis)) = [0x0062]
   \<and> [0x0062] \<noteq> BLUEPRINT_PLACEHOLDER
   \<and> plan_firstChapter (analyzeAndPlan_parse (Some response_without_analysis)) = [0x0063]
   \<and> [0x0063] \<noteq> response_without_analysis"
    by simp
  from first e b c e2 b2 e3 b3 show ?thesis by blast
qed

text \<open>
  Claim C7, amended. When the response is some text, the analysis marker, \<open>a\<close>, the outline
  marker, \<open>b\<close>, the story marker, \<open>c\<close>, and each marker shown is the first occurrence of
  that marker in the response, the fields are \<open>a\<close>, \<open>b\<close> and \<open>c\<close>, trimmed. The analysis is
  its placeholder when the response has no analysis marker followed later by an outline
  marker, in particular when one of the two is missing; the blueprint is its placeholder
  when the response has no outline marker followed later by a story marker, in particular
  when one of the two is missing; the first chapter is the whole response text when the
  story marker is missing.
\<close>

theorem analyzeAndPlan_fields:
  "(text = pre @ MARK_ANALYSIS @ a @ MARK_BLUEPRINT @ b @ MARK_STORY @ c
      \<and> first_occurrence MARK_ANALYSIS pre
      \<and> first_occurrence MARK_BLUEPRINT (pre @ MARK_ANALYSIS @ a)
      \<and> first_occurrence MARK_STORY (pre @ MARK_ANALYSIS @ a @ MARK_BLUEPRINT @ b)
    \<longrightarrow> analyzeAndPlan_parse (Some text) =
          \<lparr> plan_analysis = js_trim a, plan_blueprint = js_trim b,
            plan_firstChapter = js_trim c \<rparr>)
   \<and> (\<not> occurs MARK_ANALYSIS (or_default rt []) \<or> \<not> occurs MARK_BLUEPRINT (or_default rt [])
        \<longrightarrow> plan_analysis (analyzeAndPlan_parse rt) = ANALYSIS_PLACEHOLDER)
   \<and> (\<not> occurs MARK_BLUEPRINT (or_default rt []) \<or> \<not> occurs MARK_STORY (or_default rt [])
        \<longrightarrow> plan_blueprint (analyzeAndPlan_parse rt) = BLUEPRINT_PLACEHOLDER)
   \<and> (\<not> occurs MARK_STORY (or_default rt [])
        \<longrightarrow> plan_firstChapter (analyzeAndPlan_parse rt) = or_default rt [])
   \<and> (\<not> (\<exists>p x r. or_default rt [] = p @ MARK_ANALYSIS @ x @ MARK_BLUEPRINT @ r)
        \<longrightarrow> plan_analysis (analyzeAndPlan_parse rt) = ANALYSIS_PLACEHOLDER)
   \<and> (\<not> (\<exists>p x r. or_default rt [] = p @ MARK_BLUEPRINT @ x @ MARK_STORY @ r)
        \<longrightarrow> plan_blueprint (analyzeAndPlan_parse rt) = BLUEPRINT_PLACEHOLDER)"
proof (intro conjI impI)
  assume h: "text = pre @ MARK_ANALYSIS @ a @ MARK_BLUEPRINT @ b @ MARK_STORY @ c
      \<and> first_occurrence MARK_ANALYSIS pre
      \<and> first_occurrence MARK_BLUEPRINT (pre @ MARK_ANALYSIS @ a)
      \<and> first_occurrence MARK_STORY (pre @ MARK_ANALYSIS @ a @ MARK_BLUEPRINT @ b)"
  then have t: "text = pre @ MARK_ANALYSIS @ a @ MARK_BLUEPRINT @ b @ MARK_STORY @ c"
    and f1: "first_occurrence MARK_ANALYSIS pre"
    and f2: "first_occurrence MARK_BLUEPRINT (pre @ MARK_ANALYSIS @ a)"
    and f3: "first_occurrence MARK_STORY (pre @ MARK_ANALYSIS @ a @ MARK_BLUEPRINT @ b)"
    by simp_all
  from f2 have f2a: "first_occurrence MARK_BLUEPRINT a"
    using first_occurrence_suffix [of MARK_BLUEPRINT "pre @ MARK_ANALYSIS" a] by simp
  from f3 have f3b: "first_occurrence MARK_STORY b"
    using first_occurrence_suffix [of MARK_STORY "pre @ MARK_ANALYSIS @ a @ MARK_BLUEPRINT" b]
    by simp
  have ne: "text \<noteq> []"
    using markers_nonempty(1) by (simp add: t)
  have r1: "regex_between MARK_ANALYSIS MARK_BLUEPRINT text = Some a"
    unfolding t
    by (rule regex_between_first [OF markers_nonempty(1) f1 markers_nonempty(2) f2a])
  have "regex_between MARK_BLUEPRINT MARK_STORY ((pre @ MARK_ANALYSIS @ a) @ MARK_BLUEPRINT @ b
          @ MARK_STORY @ c) = Some b"
    by (rule regex_between_first [OF markers_nonempty(2) f2 markers_nonempty(3) f3b])
  then have r2: "regex_between MARK_BLUEPRINT MARK_STORY text = Some b"
    by (simp add: t)
  have "regex_after MARK_STORY ((pre @ MARK_ANALYSIS @ a @ MARK_BLUEPRINT @ b) @ MARK_STORY @ c)
          = Some c"
    by (rule regex_after_first [OF markers_nonempty(3) f3])
  then have r3: "regex_after MARK_STORY text = Some c"
    by (simp add: t)
  show "analyzeAndPlan_parse (Some text) =
          \<lparr> plan_analysis = js_trim a, plan_blueprint = js_trim b,
            plan_firstChapter = js_trim c \<rparr>"
    using ne by (simp add: analyzeAndPlan_parse_def or_default_def truthy_def r1 r2 r3 Let_def)
next
  assume "\<not> occurs MARK_ANALYSIS (or_default rt []) \<or> \<not> occurs MARK_BLUEPRINT (or_default rt [])"
  from regex_between_missing [OF this]
  show "plan_analysis (analyzeAndPlan_parse rt) = ANALYSIS_PLACEHOLDER"
    by (simp add: analyzeAndPlan_parse_def Let_def)
next
  assume "\<not> occurs MARK_BLUEPRINT (or_default rt []) \<or> \<not> occurs MARK_STORY (or_default rt [])"
  from regex_between_missing [OF this]
  show "plan_blueprint (analyzeAndPlan_parse rt) = BLUEPRINT_PLACEHOLDER"
    by (simp add: analyzeAndPlan_parse_def Let_def)
next
  assume "\<not> occurs MARK_STORY (or_default rt [])"
  then have "regex_after MARK_STORY (or_default rt []) = None"
    by (simp add: regex_after_None)
  then show "plan_firstChapter (analyzeAndPlan_parse rt) = or_default rt []"
    by (simp add: analyzeAndPlan_parse_def Let_def)
next
  assume "\<not> (\<exists>p x r. or_default rt [] = p @ MARK_ANALYSIS @ x @ MARK_BLUEPRINT @ r)"
  then have "regex_between MARK_ANALYSIS MARK_BLUEPRINT (or_default rt []) = None"
    by (rule regex_between_None [THEN iffD2])
  then show "plan_analysis (analyzeAndPlan_parse rt) = ANALYSIS_PLACEHOLDER"
    by (simp add: analyzeAndPlan_parse_def Let_def)
next
  assume "\<not> (\<exists>p x r. or_default rt [] = p @ MARK_BLUEPRINT @ x @ MARK_STORY @ r)"
  then have "regex_between MARK_BLUEPRINT MARK_STORY (or_default rt []) = None"
    by (rule regex_between_None [THEN iffD2])
  then show "plan_blueprint (analyzeAndPlan_parse rt) = BLUEPRINT_PLACEHOLDER"
    by (simp add: analyzeAndPlan_parse_def Let_def)
qed

text \<open>A response with blanks around the three texts, one without any marker, and one with
  the outline marker in front of the analysis marker.\<close>

theorem analyzeAndPlan_fields_witness:
  "response_in_order =
     [0x0020] @ MARK_ANALYSIS @ [0x0020, 0x0041, 0x000A] @ MARK_BLUEPRINT @ [0x0042, 0x0020] @
     MARK_STORY @ [0x000A, 0x0043, 0x0020]
   \<and> response_in_order =
     [0x0020, 0x5206, 0x6790, 0xFF1A, 0x0020, 0x0041, 0x000A, 0x5927, 0x7EB2, 0xFF1A,
      0x0042, 0x0020, 0x6545, 0x4E8B, 0xFF1A, 0x000A, 0x0043, 0x0020]
   \<and> first_occurrence MARK_ANALYSIS [0x0020]
   \<and> first_occurrence MARK_BLUEPRINT ([0x0020] @ MARK_ANALYSIS @ [0x0020, 0x0041, 0x000A])
   \<and> first_occurrence MARK_STORY
        ([0x0020] @ MARK_ANALYSIS @ [0x0020, 0x0041, 0x000A] @ MARK_BLUEPRINT @ [0x0042, 0x0020])
   \<and> analyzeAndPlan_parse (Some response_in_order) =
        \<lparr> plan_analysis = [0x0041], plan_blueprint = [0x0042], plan_firstChapter = [0x0043] \<rparr>
   \<and> \<not> occurs MARK_ANALYSIS [0x0078] \<and> \<not> occurs MARK_BLUEPRINT [0x0078]
   \<and> \<not> occurs MARK_STORY [0x0078]
   \<and> analyzeAndPlan_parse (Some [0x0078]) =
        \<lparr> plan_analysis = [0x5206, 0x6790, 0x5B8C, 0x6210, 0x3002],
          plan_blueprint = [0x84DD, 0x56FE, 0x5DF2, 0x6784, 0x601D, 0x3002],
          plan_firstChapter = [0x0078] \<rparr>
   \<and> response_outline_first =
       [0x5927, 0x7EB2, 0xFF1A, 0x0078, 0x5206, 0x6790, 0xFF1A, 0x0079, 0x6545, 0x4E8B, 0xFF1A,
        0x007A]
   \<and> occurs MARK_ANALYSIS response_outline_first
   \<and> occurs MARK_BLUEPRINT response_outline_first
   \<and> \<not> (\<exists>p x r. response_outline_first = p @ MARK_ANALYSIS @ x @ MARK_BLUEPRINT @ r)
   \<and> plan_analysis (analyzeAndPlan_parse (Some response_outline_first))
       = [0x5206, 0x6790, 0x5B8C, 0x6210, 0x3002]"
proof -
  have t: "response_in_order =
     [0x0020] @ MARK_ANALYSIS @ [0x0020, 0x0041, 0x000A] @ MARK_BLUEPRINT @ [0x0042, 0x0020] @
     MARK_STORY @ [0x000A, 0x0043, 0x0020]"
    by (simp add: response_in_order_def)
  have f1: "first_occurrence MARK_ANALYSIS [0x0020]"
    by (simp add: first_occurrence_def marker_defs)
  have f2: "first_occurrence MARK_BLUEPRINT ([0x0020] @ MARK_ANALYSIS @ [0x0020, 0x0041, 0x000A])"
    by (simp add: first_occurrence_def marker_defs)
  have f3: "first_occurrence MARK_STORY
        ([0x0020] @ MARK_ANALYSIS @ [0x0020, 0x0041, 0x000A] @ MARK_BLUEPRINT @ [0x0042, 0x0020])"
    by (simp add: first_occurrence_def marker_defs)
  have o: "\<not> occurs MARK_ANALYSIS [0x0078]" "\<not> occurs MARK_BLUEPRINT [0x0078]"
    "\<not> occurs MARK_STORY [0x0078]"
    by (simp_all add: marker_defs)
  have d: "or_default (Some [0x0078]) [] = [0x0078]"
    by (simp add: or_default_def truthy_def)
  have d2: "or_default (Some response_outline_first) [] = response_outline_first"
    by (simp add: or_default_def truthy_def outline_first_literals)
  have ph: "ANALYSIS_PLACEHOLDER = [0x5206, 0x6790, 0x5B8C, 0x6210, 0x3002]"
    "BLUEPRINT_PLACEHOLDER = [0x84DD, 0x56FE, 0x5DF2, 0x6784, 0x601D, 0x3002]"
    by (simp_all add: ANALYSIS_PLACEHOLDER_def BLUEPRINT_PLACEHOLDER_def)
  have oc: "occurs MARK_ANALYSIS response_outline_first"
    "occurs MARK_BLUEPRINT response_outline_first"
    unfolding outline_first_literals by (simp_all add: marker_defs)
  have "regex_between MARK_ANALYSIS MARK_BLUEPRINT response_outline_first = None"
    unfolding outline_first_literals by (simp add: marker_defs match_here_def)
  then have nd: "\<not> (\<exists>p x r. response_outline_first
                      = p @ MARK_ANALYSIS @ x @ MARK_BLUEPRINT @ r)"
    by (rule regex_between_None [THEN iffD1])
  note a = analyzeAndPlan_fields
         [of response_in_order "[0x0020]" "[0x0020, 0x0041, 0x000A]" "[0x0042, 0x0020]"
             "[0x000A, 0x0043, 0x0020]" "Some [0x0078]"]
  note b = analyzeAndPlan_fields
         [of response_in_order "[0x0020]" "[0x0020, 0x0041, 0x000A]" "[0x0042, 0x0020]"
             "[0x000A, 0x0043, 0x0020]" "Some response_outline_first"]
  have p1: "analyzeAndPlan_parse (Some response_in_order) =
        \<lparr> plan_analysis = [0x0041], plan_blueprint = [0x0042], plan_firstChapter = [0x0043] \<rparr>"
    using a t f1 f2 f3 by (simp add: trim_samples)
  have p2: "analyzeAndPlan_parse (Some [0x0078]) =
        \<lparr> plan_analysis = [0x5206, 0x6790, 0x5B8C, 0x6210, 0x3002],
          plan_blueprint = [0x84DD, 0x56FE, 0x5DF2, 0x6784, 0x601D, 0x3002],
          plan_firstChapter = [0x0078] \<rparr>"
    using a o by (cases "analyzeAndPlan_parse (Some [0x0078])") (simp add: d ph)
  have p3: "plan_analysis (analyzeAndPlan_parse (Some response_outline_first))
       = [0x5206, 0x6790, 0x5B8C, 0x6210, 0x3002]"
    using b nd by (simp add: d2 ph)
  from t in_order_literals f1 f2 f3 p1 o p2 outline_first_literals oc nd p3
  show ?thesis by blast
qed

section \<open>The chat\<close>

lemma js_trim_empty_iff: "js_trim s = [] \<longleftrightarrow> list_all is_js_space s"
proof -
  have "js_trim s = [] \<longleftrightarrow> (\<forall>x \<in> set (dropWhile is_js_space s). is_js_space x)"
    by (simp add: js_trim_def dropWhile_eq_Nil_conv)
  also have "\<dots> \<longleftrightarrow> dropWhile is_js_space s = []"
  proof
    assume a: "\<forall>x \<in> set (dropWhile is_js_space s). is_js_space x"
    show "dropWhile is_js_space s = []"
    proof (rule ccontr)
      assume n: "dropWhile is_js_space s \<noteq> []"
      then have "\<not> is_js_space (hd (dropWhile is_js_space s))" by (rule hd_dropWhile)
      moreover from n have "hd (dropWhile is_js_space s) \<in> set (dropWhile is_js_space s)"
        by simp
      ultimately show False using a by blast
    qed
  next
    assume "dropWhile is_js_space s = []"
    then show "\<forall>x \<in> set (dropWhile is_js_space s). is_js_space x"
      by (auto dest: set_dropWhileD)
  qed
  also have "\<dots> \<longleftrightarrow> list_all is_js_space s"
    by (simp add: dropWhile_eq_Nil_conv list_all_iff)
  finally show ?thesis .
qed

lemma chat_run_Nil [simp]: "chat_run img [] c = c"
  by (simp add: chat_run_def)

lemma chat_run_Cons [simp]: "chat_run img (e # es) c = chat_run img es (chat_step img e c)"
  by (simp add: chat_run_def)

lemma chat_run_append: "chat_run img (xs @ ys) c = chat_run img ys (chat_run img xs c)"
  by (simp add: chat_run_def)

lemma chat_step_grows: "prefix (messages c) (messages (chat_step img e c))"
  by (cases e)
     (auto simp: chat_step_def handleSend_def handleSend_settled_def Let_def
      split: outcome.splits)

lemma chat_run_grows: "prefix (messages c) (messages (chat_run img es c))"
proof (induction es arbitrary: c)
  case Nil
  then show ?case by simp
next
  case (Cons e es)
  from chat_step_grows [of c img e] Cons.IH [of "chat_step img e c"] show ?case
    by (auto intro: prefix_order.trans)
qed

lemma chat_step_while_typing:
  "isTyping c \<Longrightarrow> \<not> is_reply e \<Longrightarrow>
   isTyping (chat_step img e c) \<and> messages (chat_step img e c) = messages c"
  by (cases e) (simp_all add: chat_step_def handleSend_def is_reply_def)

lemma chat_run_while_typing:
  "isTyping c \<Longrightarrow> list_all (\<lambda>e. \<not> is_reply e) es \<Longrightarrow>
   isTyping (chat_run img es c) \<and> messages (chat_run img es c) = messages c"
proof (induction es arbitrary: c)
  case Nil
  then show ?case by simp
next
  case (Cons e es)
  from Cons.prems have t: "isTyping c" and e: "\<not> is_reply e"
    and r: "list_all (\<lambda>e. \<not> is_reply e) es" by simp_all
  from chat_step_while_typing [OF t e]
  have 1: "isTyping (chat_step img e c)" and 2: "messages (chat_step img e c) = messages c"
    by simp_all
  from Cons.IH [OF 1 r] 2 show ?case by simp
qed

lemma reply_appends:
  "messages (chat_step img (ReplySettled r) c) = messages c @ [assistant_message r]"
  by (cases r) (simp_all add: chat_step_def handleSend_settled_def assistant_message_def Let_def)

text \<open>
  Claim C8. A submit with blank input, or while a reply is out, changes nothing. Any other
  submit appends the user message and starts the call; when the call resolves the reply of
  the assistant is appended, when it rejects the fixed sentence is. Whatever the user does
  while the call is out, a send leaves the old list followed by exactly the user message
  and one assistant message. No event shortens the list or changes a message in it: the
  list before any run of events is a prefix of the list after it.
\<close>

theorem chat_messages_append_only:
  "(list_all is_js_space (input c) \<or> isTyping c \<longrightarrow>
      handleSend img c = None \<and> chat_step img Submit c = c)
   \<and> (\<not> list_all is_js_space (input c) \<and> \<not> isTyping c \<longrightarrow>
        (\<exists>req. handleSend img c =
           Some (c\<lparr> messages := messages c @ [\<lparr> role = User, content = input c \<rparr>],
                    input := [], isTyping := True \<rparr>, req)))
   \<and> messages (fst (handleSend_settled (Resolved rt) c)) =
       messages c @ [\<lparr> role = Assistant, content = chatWithStory_result rt \<rparr>]
   \<and> messages (fst (handleSend_settled Rejected c)) =
       messages c @ [\<lparr> role = Assistant, content = CHAT_FALLBACK \<rparr>]
   \<and> (\<not> list_all is_js_space (input c) \<and> \<not> isTyping c \<and> list_all (\<lambda>e. \<not> is_reply e) es \<longrightarrow>
        messages (chat_run img (Submit # es @ [ReplySettled r]) c) =
          messages c @ [\<lparr> role = User, content = input c \<rparr>, assistant_message r])
   \<and> prefix (messages c) (messages (chat_run img es c))"
proof (intro conjI impI)
  assume "list_all is_js_space (input c) \<or> isTyping c"
  then have "handleSend img c = None"
    by (auto simp: handleSend_def truthy_def js_trim_empty_iff)
  then show "handleSend img c = None" "chat_step img Submit c = c"
    by (simp_all add: chat_step_def)
next
  assume "\<not> list_all is_js_space (input c) \<and> \<not> isTyping c"
  then show "\<exists>req. handleSend img c =
           Some (c\<lparr> messages := messages c @ [\<lparr> role = User, content = input c \<rparr>],
                    input := [], isTyping := True \<rparr>, req)"
    by (simp add: handleSend_def truthy_def js_trim_empty_iff Let_def)
next
  show "messages (fst (handleSend_settled (Resolved rt) c)) =
       messages c @ [\<lparr> role = Assistant, content = chatWithStory_result rt \<rparr>]"
    by (simp add: handleSend_settled_def Let_def)
next
  show "messages (fst (handleSend_settled Rejected c)) =
       messages c @ [\<lparr> role = Assistant, content = CHAT_FALLBACK \<rparr>]"
    by (simp add: handleSend_settled_def)
next
  assume h: "\<not> list_all is_js_space (input c) \<and> \<not> isTyping c
             \<and> list_all (\<lambda>e. \<not> is_reply e) es"
  define c1 where "c1 = chat_step img Submit c"
  from h have c1: "isTyping c1"
    "messages c1 = messages c @ [\<lparr> role = User, content = input c \<rparr>]"
    by (simp_all add: c1_def chat_step_def handleSend_def truthy_def js_trim_empty_iff Let_def)
  from h chat_run_while_typing [OF c1(1), of es img]
  have "messages (chat_run img es c1) = messages c1" by simp
  then show "messages (chat_run img (Submit # es @ [ReplySettled r]) c) =
          messages c @ [\<lparr> role = User, content = input c \<rparr>, assistant_message r]"
    by (simp add: chat_run_append c1_def [symmetric] reply_appends c1(2))
next
  show "prefix (messages c) (messages (chat_run img es c))"
    by (rule chat_run_grows)
qed

text \<open>The sample chat: the user sends \<open>hi\<close>, fumbles while waiting, and gets \<open>o\<close>.\<close>

theorem chat_messages_append_only_witness:
  "\<not> list_all is_js_space (input sample_chat) \<and> \<not> isTyping sample_chat
   \<and> list_all (\<lambda>e. \<not> is_reply e) while_waiting
   \<and> messages (chat_run None (Submit # while_waiting @ [ReplySettled (Resolved (Some [0x006F]))])
        sample_chat) =
       [\<lparr> role = User, content = [0x0071] \<rparr>, \<lparr> role = Assistant, content = [0x0072] \<rparr>,
        \<lparr> role = User, content = [0x0068, 0x0069] \<rparr>, \<lparr> role = Assistant, content = [0x006F] \<rparr>]
   \<and> list_all is_js_space (input (sample_chat\<lparr> input := [0x0020, 0x0009] \<rparr>))
   \<and> handleSend None (sample_chat\<lparr> input := [0x0020, 0x0009] \<rparr>) = None"
proof -
  have i: "\<not> list_all is_js_space (input sample_chat)"
    by (simp add: sample_chat_def is_js_space_def)
  have t: "\<not> isTyping sample_chat"
    by (simp add: sample_chat_def)
  have w: "list_all (\<lambda>e. \<not> is_reply e) while_waiting"
    by (simp add: while_waiting_def is_reply_def)
  have b: "list_all is_js_space (input (sample_chat\<lparr> input := [0x0020, 0x0009] \<rparr>))"
    by (simp add: is_js_space_def)
  have m: "assistant_message (Resolved (Some [0x006F])) = \<lparr> role = Assistant, content = [0x006F] \<rparr>"
    by (simp add: assistant_message_def chatWithStory_result_def or_default_def truthy_def)
  from chat_messages_append_only
         [of sample_chat None "Some [0x006F]" while_waiting "Resolved (Some [0x006F])"]
       chat_messages_append_only
         [of "sample_chat\<lparr> input := [0x0020, 0x0009] \<rparr>" None "Some [0x006F]" "[]"
             "Resolved (Some [0x006F])"]
       i t w b
  show ?thesis
    by (simp add: m sample_chat_def)
qed
section \<open>The continuation prompt\<close>

text \<open>
  Claim C10. The prompt of \<open>writeNextChapter\<close> contains the story only as
  \<open>currentStory.slice(-2000)\<close>: the text part of the request is the fixed pieces of the
  template around the guidance, the blueprint, the last 2000 code units of the story (the
  whole story when it is shorter) and the chapter number; nothing else of the story is in
  the request. Two stories with the same last 2000 code units give the same request, for
  the same blueprint, chapter number, image and guidance.
\<close>

theorem writeNextChapter_uses_last_2000:
  assumes "slice_last 2000 s1 = slice_last 2000 s2"
  shows "writeNextChapter_request s1 b i img g = writeNextChapter_request s2 b i img g
         \<and> suffix (slice_last 2000 s1) s1
         \<and> length (slice_last 2000 s1) = min 2000 (length s1)
         \<and> (length s1 \<le> 2000 \<longrightarrow> slice_last 2000 s1 = s1)
         \<and> slice_last 2000 s1 = drop (length s1 - 2000) s1
         \<and> req_parts (writeNextChapter_request s1 b i img g) =
             TextPart (prompt_part0 @ g @ prompt_part1 @ b @ prompt_part2 @
                       drop (length s1 - 2000) s1 @
                       prompt_part3 @ decimal i @ prompt_part4 @ decimal i @ prompt_part5) #
             (case img of None \<Rightarrow> [] | Some im \<Rightarrow> if im = [] then [] else [image_part im])"
proof -
  have "chapter_prompt s1 b i g = chapter_prompt s2 b i g"
    using assms by (simp add: chapter_prompt_def)
  then have "writeNextChapter_request s1 b i img g = writeNextChapter_request s2 b i img g"
    by (simp add: writeNextChapter_request_def)
  moreover have "suffix (slice_last 2000 s1) s1"
    by (simp add: slice_last_def suffix_drop)
  moreover have "length (slice_last 2000 s1) = min 2000 (length s1)"
    by (simp add: slice_last_def)
  moreover have "length s1 \<le> 2000 \<longrightarrow> slice_last 2000 s1 = s1"
    by (simp add: slice_last_def)
  moreover have "slice_last 2000 s1 = drop (length s1 - 2000) s1"
    by (simp add: slice_last_def)
  moreover have "req_parts (writeNextChapter_request s1 b i img g) =
             TextPart (prompt_part0 @ g @ prompt_part1 @ b @ prompt_part2 @
                       drop (length s1 - 2000) s1 @
                       prompt_part3 @ decimal i @ prompt_part4 @ decimal i @ prompt_part5) #
             (case img of None \<Rightarrow> [] | Some im \<Rightarrow> if im = [] then [] else [image_part im])"
    by (simp add: writeNextChapter_request_def chapter_prompt_def slice_last_def truthy_def
        split: option.splits)
  ultimately show ?thesis by blast
qed

text \<open>Two stories of 2001 code units that differ in the first one only: the prompt holds
  the 2000 code units they share, and not the first.\<close>

theorem writeNextChapter_uses_last_2000_witness:
  "slice_last 2000 (0x41 # replicate 2000 0x42) = slice_last 2000 (0x43 # replicate 2000 0x42)
   \<and> (0x41 # replicate 2000 0x42 :: js_string) \<noteq> 0x43 # replicate 2000 0x42
   \<and> writeNextChapter_request (0x41 # replicate 2000 0x42) [0x44] 2 None [0x45]
     = writeNextChapter_request (0x43 # replicate 2000 0x42) [0x44] 2 None [0x45]
   \<and> req_parts (writeNextChapter_request (0x41 # replicate 2000 0x42) [0x44] 2 None [0x45]) =
       [TextPart (prompt_part0 @ [0x45] @ prompt_part1 @ [0x44] @ prompt_part2 @
                  replicate 2000 0x42 @
                  prompt_part3 @ [0x32] @ prompt_part4 @ [0x32] @ prompt_part5)]
   \<and> hd prompt_part3 = 0x22 \<and> last prompt_part2 = 0x22"
proof -
  have h: "slice_last 2000 (0x41 # replicate 2000 0x42)
           = slice_last 2000 (0x43 # replicate 2000 0x42)"
    by (simp add: slice_last_def)
  have d: "decimal 2 = [0x32]"
    by (simp add: decimal.simps digit_def)
  have q: "hd prompt_part3 = 0x22 \<and> last prompt_part2 = 0x22"
    by (simp add: prompt_part3_def prompt_part2_def)
  note t = writeNextChapter_uses_last_2000 [OF h, of "[0x44]" 2 None "[0x45]"]
  have e: "writeNextChapter_request (0x41 # replicate 2000 0x42) [0x44] 2 None [0x45]
     = writeNextChapter_request (0x43 # replicate 2000 0x42) [0x44] 2 None [0x45]"
    by (rule t [THEN conjunct1])
  have p: "req_parts (writeNextChapter_request (0x41 # replicate 2000 0x42) [0x44] 2 None [0x45]) =
       [TextPart (prompt_part0 @ [0x45] @ prompt_part1 @ [0x44] @ prompt_part2 @
                  replicate 2000 0x42 @
                  prompt_part3 @ [0x32] @ prompt_part4 @ [0x32] @ prompt_part5)]"
    using t [THEN conjunct2, THEN conjunct2, THEN conjunct2, THEN conjunct2, THEN conjunct2]
    by (simp add: d)
  have n: "(0x41 # replicate 2000 0x42 :: js_string) \<noteq> 0x43 # replicate 2000 0x42"
    by simp
  from h n e p q show ?thesis by blast
qed

end
